theory Spec2Isabelle
  imports Complex_Main
begin

section \<open>JavaScript values as the schema compressor sees them\<close>

text \<open>
  The schema compressor (\<^verbatim>\<open>schemaCompressor.ts\<close>) is present in several revisions:
  \<^verbatim>\<open>src/unnamed/part_002\<close> holds the newest encoder (\<^verbatim>\<open>escapeXml\<close>,
  \<^verbatim>\<open>mergeAllOfProperties\<close>, \<^verbatim>\<open>jsonSchemaToXml\<close>, \<^verbatim>\<open>getCompactType\<close>), and
  \<^verbatim>\<open>src/unnamed/part_004\<close> holds the metrics functions (\<^verbatim>\<open>estimateTokens\<close>,
  \<^verbatim>\<open>compressSchemaWithMetrics\<close>, \<^verbatim>\<open>compressToolSchemas\<close>) together with the encoder
  of that revision. \<^verbatim>\<open>src/unnamed/part_003\<close> is the first revision of the file, with
  simpler metrics; it comes last. \<^verbatim>\<open>src/unnamed/part_005\<close> holds the encoder of
  \<^verbatim>\<open>part_004\<close> once more, the same functions without the metrics.

  The functions take values of type \<^verbatim>\<open>any\<close> at run time: the TypeScript interfaces are
  erased, and the code itself tests for \<^verbatim>\<open>null\<close>, \<^verbatim>\<open>typeof\<close> and \<^verbatim>\<open>Array.isArray\<close>.
  The embedding therefore works on untyped JSON values and writes every dynamic check and
  every exception out.

  A JavaScript string is a sequence of UTF-16 code units and \<^verbatim>\<open>length\<close> counts code
  units, so a string is a list of code units here; \<open>asc\<close> turns an ASCII literal into one.
\<close>

type_synonym jsstring = "nat list"

definition asc :: "string \<Rightarrow> jsstring" where
  "asc s = map of_char s"

text \<open>Decimal digits of a natural number, as \<^verbatim>\<open>Number.prototype.toString\<close> prints them.\<close>

fun digits :: "nat \<Rightarrow> jsstring" where
  "digits n = (if n < 10 then [48 + n] else digits (n div 10) @ [48 + n mod 10])"

declare digits.simps [simp del]

definition showInt :: "int \<Rightarrow> jsstring" where
  "showInt n = (if n < 0 then 45 # digits (nat (- n)) else digits (nat n))"

text \<open>\<^verbatim>\<open>Array.prototype.join\<close> on an array of strings.\<close>

fun join :: "jsstring \<Rightarrow> jsstring list \<Rightarrow> jsstring" where
  "join sep [] = []"
| "join sep [s] = s"
| "join sep (s # t # ts) = s @ sep @ join sep (t # ts)"

text \<open>
  A JSON value. \<open>JNum\<close> carries an integer; a number with a fractional part is outside
  the input type of this development. \<open>JObj\<close> lists the own properties of an object in
  the order in which \<^verbatim>\<open>Object.keys\<close> and \<^verbatim>\<open>Object.entries\<close> enumerate them (for
  keys that are not array indices, the insertion order). The value \<^verbatim>\<open>undefined\<close> is
  not a JSON value: an optional argument or a property read is a \<open>json option\<close>, with
  \<open>None\<close> for \<^verbatim>\<open>undefined\<close>.
\<close>

datatype json =
    JNull
  | JBool bool
  | JNum int
  | JStr jsstring
  | JArr "json list"
  | JObj "(jsstring \<times> json) list"

text \<open>
  The only exception this code can raise is a \<^verbatim>\<open>TypeError\<close> (a property read on
  \<^verbatim>\<open>null\<close>, or a call of something that is not a function). \<open>NotModelled\<close> is not an
  outcome of the program: it marks the few inputs on which the program's behaviour rests
  on a JavaScript coercion that is not defined here (see \<open>ToString\<close>, \<open>ToNumber\<close> and
  \<open>assign\<close>), so that no result below is ever a guess.
\<close>

datatype error = TypeError | NotModelled

definition bindE :: "error + 'a \<Rightarrow> ('a \<Rightarrow> error + 'b) \<Rightarrow> error + 'b" where
  "bindE m f = (case m of Inl e \<Rightarrow> Inl e | Inr x \<Rightarrow> f x)"

text \<open>\<^verbatim>\<open>Array.prototype.map\<close> with a callback that may throw: the first exception ends the loop.\<close>

fun mapM :: "('a \<Rightarrow> error + 'b) \<Rightarrow> 'a list \<Rightarrow> error + 'b list" where
  "mapM f [] = Inr []"
| "mapM f (x # xs) = bindE (f x) (\<lambda>y. bindE (mapM f xs) (\<lambda>ys. Inr (y # ys)))"

lemma bindE_Inl [simp]: "bindE (Inl e) f = Inl e"
  by (simp add: bindE_def)

lemma bindE_Inr [simp]: "bindE (Inr x) f = f x"
  by (simp add: bindE_def)

lemma bindE_cong [fundef_cong]:
  "m = m' \<Longrightarrow> (\<And>x. m' = Inr x \<Longrightarrow> f x = g x) \<Longrightarrow> bindE m f = bindE m' g"
  by (cases m') (auto simp: bindE_def)

lemma mapM_cong [fundef_cong]:
  "xs = ys \<Longrightarrow> (\<And>x. x \<in> set ys \<Longrightarrow> f x = g x) \<Longrightarrow> mapM f xs = mapM g ys"
  by (induction ys arbitrary: xs) (auto cong: bindE_cong)

text \<open>Truthiness (\<^verbatim>\<open>ToBoolean\<close>), as in \<^verbatim>\<open>if (x)\<close>, \<^verbatim>\<open>!x\<close> and \<^verbatim>\<open>x || y\<close>.\<close>

fun truthy :: "json option \<Rightarrow> bool" where
  "truthy None = False"
| "truthy (Some JNull) = False"
| "truthy (Some (JBool b)) = b"
| "truthy (Some (JNum n)) = (n \<noteq> 0)"
| "truthy (Some (JStr s)) = (s \<noteq> [])"
| "truthy (Some (JArr xs)) = True"
| "truthy (Some (JObj es)) = True"

text \<open>\<^verbatim>\<open>x || d\<close> for a default \<open>d\<close> that is a value.\<close>

fun truthyOr :: "json option \<Rightarrow> json \<Rightarrow> json" where
  "truthyOr (Some v) d = (if truthy (Some v) then v else d)"
| "truthyOr None d = d"

text \<open>\<^verbatim>\<open>typeof v === "object"\<close> for a value that is not \<^verbatim>\<open>null\<close>: arrays are objects.\<close>

fun isObject :: "json \<Rightarrow> bool" where
  "isObject (JArr xs) = True"
| "isObject (JObj es) = True"
| "isObject v = False"

text \<open>\<^verbatim>\<open>x && Array.isArray(x)\<close>: the elements when \<open>x\<close> is an array.\<close>

fun asArray :: "json option \<Rightarrow> json list option" where
  "asArray (Some (JArr xs)) = Some xs"
| "asArray v = None"

text \<open>
  A property read \<^verbatim>\<open>v.name\<close> on a value that is not \<^verbatim>\<open>null\<close>, for the names the code
  reads (\<^verbatim>\<open>type\<close>, \<^verbatim>\<open>items\<close>, \<^verbatim>\<open>enum\<close>, ...): an object gives its own property, and
  no prototype defines one of these names, so every other value gives \<^verbatim>\<open>undefined\<close>.
  A read on \<^verbatim>\<open>null\<close> throws; the functions below test for \<open>JNull\<close> where the source
  reads a property of a value it has not checked.
\<close>

fun field :: "json \<Rightarrow> jsstring \<Rightarrow> json option" where
  "field (JObj es) k = map_of es k"
| "field v k = None"

text \<open>
  \<^verbatim>\<open>ToString\<close>, as a template literal \<^verbatim>\<open>`${v}`\<close> applies it. An array prints its
  elements joined by commas, \<^verbatim>\<open>null\<close> elements as the empty string. An object prints
  as \<^verbatim>\<open>[object Object]\<close>, unless it has an own property \<^verbatim>\<open>toString\<close>: in a JSON value
  that is not a function, and the conversion throws. An integer prints in decimal up to
  magnitude \<open>2^53\<close>; beyond that JavaScript prints the shortest digits that round-trip.
\<close>

fun ToString :: "json \<Rightarrow> error + jsstring" where
  "ToString JNull = Inr (asc ''null'')"
| "ToString (JBool b) = Inr (if b then asc ''true'' else asc ''false'')"
| "ToString (JNum n) = (if \<bar>n\<bar> \<le> 2 ^ 53 then Inr (showInt n) else Inl NotModelled)"
| "ToString (JStr s) = Inr s"
| "ToString (JArr xs) =
     bindE (mapM (\<lambda>x. if x = JNull then Inr [] else ToString x) xs) (\<lambda>ss. Inr (join (asc '','') ss))"
| "ToString (JObj es) =
     (if asc ''toString'' \<in> fst ` set es then Inl TypeError else Inr (asc ''[object Object]''))"

fun ToStringU :: "json option \<Rightarrow> error + jsstring" where
  "ToStringU None = Inr (asc ''undefined'')"
| "ToStringU (Some v) = ToString v"

text \<open>The method call \<^verbatim>\<open>v.toString()\<close> on a value that is not \<^verbatim>\<open>undefined\<close>.\<close>

definition toStringMethod :: "json \<Rightarrow> error + jsstring" where
  "toStringMethod v = (if v = JNull then Inl TypeError else ToString v)"

text \<open>
  The values that have a string conversion here: every value but an object with an own
  property \<^verbatim>\<open>toString\<close> (a JSON value is not a function, so the call throws), an array
  that holds one, and an integer beyond \<open>2^53\<close>, whose digits are not modelled.
\<close>

fun coercible :: "json \<Rightarrow> bool" where
  "coercible (JNum n) = (\<bar>n\<bar> \<le> 2 ^ 53)"
| "coercible (JArr xs) = (\<forall>x \<in> set xs. coercible x)"
| "coercible (JObj es) = (asc ''toString'' \<notin> fst ` set es)"
| "coercible v = True"

text \<open>\<^verbatim>\<open>v.length\<close> on a truthy value.\<close>

fun jsLength :: "json \<Rightarrow> json option" where
  "jsLength (JArr xs) = Some (JNum (int (length xs)))"
| "jsLength (JStr s) = Some (JNum (int (length s)))"
| "jsLength (JObj es) = map_of es (asc ''length'')"
| "jsLength v = None"

text \<open>
  \<^verbatim>\<open>ToNumber\<close>, for the comparisons \<^verbatim>\<open>x.length <= 3\<close> and \<^verbatim>\<open>x.length > 10\<close>;
  \<open>None\<close> is \<^verbatim>\<open>NaN\<close>, which compares false. The operand is a number on arrays and
  strings; only an object with an own property \<^verbatim>\<open>length\<close> can make it a string, an
  array or an object, whose conversion is not defined here.
\<close>

fun ToNumber :: "json option \<Rightarrow> error + int option" where
  "ToNumber None = Inr None"
| "ToNumber (Some JNull) = Inr (Some 0)"
| "ToNumber (Some (JBool b)) = Inr (Some (if b then 1 else 0))"
| "ToNumber (Some (JNum n)) = Inr (Some n)"
| "ToNumber (Some v) = Inl NotModelled"

definition jsLessEq :: "json option \<Rightarrow> int \<Rightarrow> error + bool" where
  "jsLessEq x k = bindE (ToNumber x) (\<lambda>n. Inr (case n of None \<Rightarrow> False | Some m \<Rightarrow> m \<le> k))"

definition jsGreater :: "json option \<Rightarrow> int \<Rightarrow> error + bool" where
  "jsGreater x k = bindE (ToNumber x) (\<lambda>n. Inr (case n of None \<Rightarrow> False | Some m \<Rightarrow> m > k))"

text \<open>
  \<^verbatim>\<open>Object.entries\<close> (and \<^verbatim>\<open>Object.keys\<close>, its first components) on a truthy value:
  an array and a string have their indices as keys, a number and \<^verbatim>\<open>true\<close> have none.
  Every call in the source is guarded by a truthiness test, so \<^verbatim>\<open>null\<close> never gets here.
\<close>

fun entries :: "json \<Rightarrow> (jsstring \<times> json) list" where
  "entries (JObj es) = es"
| "entries (JArr xs) = zip (map digits [0..<length xs]) xs"
| "entries (JStr s) = zip (map digits [0..<length s]) (map (\<lambda>c. JStr [c]) s)"
| "entries v = []"

text \<open>
  Writing a property, as \<^verbatim>\<open>Object.assign\<close> does for each source entry. A key the
  target has keeps its place and takes the new value. A new key goes to the end, unless
  it is an array index (the decimal form of a number below \<open>2^32 - 1\<close>): an object
  enumerates those first, in ascending order.
\<close>

definition arrayIndex :: "jsstring \<Rightarrow> nat option" where
  "arrayIndex k =
     (let n = foldl (\<lambda>a c. 10 * a + (c - 48)) 0 k
      in if digits n = k \<and> n < 4294967295 then Some n else None)"

fun putIndex :: "nat \<Rightarrow> jsstring \<Rightarrow> json \<Rightarrow> (jsstring \<times> json) list \<Rightarrow> (jsstring \<times> json) list" where
  "putIndex n k v [] = [(k, v)]"
| "putIndex n k v ((k', v') # es) =
     (case arrayIndex k' of
        Some m \<Rightarrow> if m < n then (k', v') # putIndex n k v es else (k, v) # (k', v') # es
      | None \<Rightarrow> (k, v) # (k', v') # es)"

definition setProp :: "jsstring \<Rightarrow> json \<Rightarrow> (jsstring \<times> json) list \<Rightarrow> (jsstring \<times> json) list" where
  "setProp k v es =
     (if map_of es k \<noteq> None then map (\<lambda>(k', v'). if k' = k then (k', v) else (k', v')) es
      else case arrayIndex k of None \<Rightarrow> es @ [(k, v)] | Some n \<Rightarrow> putIndex n k v es)"

text \<open>
  \<^verbatim>\<open>Object.assign(target, source)\<close> for a truthy source. Writing the key
  \<^verbatim>\<open>__proto__\<close> runs the prototype setter instead of creating a property; that case is
  left out.
\<close>

definition assign :: "(jsstring \<times> json) list \<Rightarrow> json \<Rightarrow> error + (jsstring \<times> json) list" where
  "assign target source =
     (if asc ''__proto__'' \<in> fst ` set (entries source) then Inl NotModelled
      else Inr (foldl (\<lambda>t (k, v). setProp k v t) target (entries source)))"

text \<open>
  The object that an object literal or \<^verbatim>\<open>JSON.parse\<close> builds from the properties
  \<open>ins\<close>, written in this order: each is added to the object built so far, so the
  result lists the properties in the order in which \<^verbatim>\<open>Object.entries\<close> and
  \<^verbatim>\<open>Object.keys\<close> enumerate them, which is not the order of writing when a key is an
  array index.
\<close>

definition objectOf :: "(jsstring \<times> json) list \<Rightarrow> (jsstring \<times> json) list" where
  "objectOf ins = foldl (\<lambda>t (k, v). setProp k v t) [] ins"

text \<open>\<^verbatim>\<open>String.prototype.includes\<close>: \<open>key\<close> occurs in the string as a substring.\<close>

fun includesStr :: "jsstring \<Rightarrow> jsstring \<Rightarrow> bool" where
  "includesStr key [] = (key = [])"
| "includesStr key (c # s) = (take (length key) (c # s) = key \<or> includesStr key s)"

section \<open>The encoder of \<^verbatim>\<open>src/unnamed/part_002\<close>\<close>

definition ENUM_DISPLAY_THRESHOLD :: nat where
  "ENUM_DISPLAY_THRESHOLD = 3"

text \<open>\<^verbatim>\<open>text.replace(/c/g, r)\<close> for a single character \<open>c\<close>.\<close>

fun replaceAll :: "nat \<Rightarrow> jsstring \<Rightarrow> jsstring \<Rightarrow> jsstring" where
  "replaceAll c r [] = []"
| "replaceAll c r (x # xs) = (if x = c then r @ replaceAll c r xs else x # replaceAll c r xs)"

text \<open>
  \<^verbatim>\<open>escapeXml\<close>: five passes, the ampersand first (38 is \<^verbatim>\<open>&\<close>, 60 \<^verbatim>\<open><\<close>,
  62 \<^verbatim>\<open>>\<close>, 34 the double quote, 39 the apostrophe).
\<close>

definition escapeXml :: "jsstring \<Rightarrow> jsstring" where
  "escapeXml text =
     replaceAll 39 (asc ''&apos;'')
       (replaceAll 34 (asc ''&quot;'')
         (replaceAll 62 (asc ''&gt;'')
           (replaceAll 60 (asc ''&lt;'')
             (replaceAll 38 (asc ''&amp;'') text))))"

text \<open>
  \<^verbatim>\<open>mergeAllOfProperties\<close>: the loop over \<^verbatim>\<open>allOf\<close>, with \<^verbatim>\<open>merged\<close> as its state.
  \<^verbatim>\<open>schema.properties\<close> throws on a \<^verbatim>\<open>null\<close> member.
\<close>

fun mergeLoop :: "(jsstring \<times> json) list \<Rightarrow> json list \<Rightarrow> error + (jsstring \<times> json) list" where
  "mergeLoop merged [] = Inr merged"
| "mergeLoop merged (schema # rest) =
     (if schema = JNull then Inl TypeError
      else if truthy (field schema (asc ''properties''))
        then bindE (assign merged (the (field schema (asc ''properties'')))) (\<lambda>m. mergeLoop m rest)
        else mergeLoop merged rest)"

definition mergeAllOfProperties :: "json list \<Rightarrow> error + (jsstring \<times> json) list" where
  "mergeAllOfProperties allOf = mergeLoop [] allOf"

text \<open>
  The pieces of \<^verbatim>\<open>getCompactType\<close> that do not recurse, each named after the source
  lines it embeds. The code units 8805, 8804, 215 and 8734 are the signs for
  greater-or-equal, less-or-equal, multiplication and infinity.

  \<open>enumValues\<close> is \<^verbatim>\<open>enum.map((v) => escapeXml(v.toString())).join("|")\<close>.
\<close>

definition enumValues :: "json list \<Rightarrow> error + jsstring" where
  "enumValues vs =
     bindE (mapM (\<lambda>v. bindE (toStringMethod v) (\<lambda>s. Inr (escapeXml s))) vs)
       (\<lambda>ss. Inr (join (asc ''|'') ss))"

text \<open>\<^verbatim>\<open>if (v !== undefined) constraints.push(`<mark>${v}`)\<close>: the strings pushed.\<close>

definition constraint :: "jsstring \<Rightarrow> json option \<Rightarrow> error + jsstring list" where
  "constraint mark v = (if v \<noteq> None then bindE (ToStringU v) (\<lambda>s. Inr [mark @ s]) else Inr [])"

text \<open>The suffix \<^verbatim>\<open>{min..max}\<close> of an array type (lines 148 to 153).\<close>

definition arrayConstraints :: "json \<Rightarrow> error + jsstring" where
  "arrayConstraints prop =
     (if field prop (asc ''minItems'') \<noteq> None \<or> field prop (asc ''maxItems'') \<noteq> None
      then bindE (ToString (truthyOr (field prop (asc ''minItems'')) (JNum 0))) (\<lambda>mn.
           bindE (ToString (truthyOr (field prop (asc ''maxItems'')) (JStr [8734]))) (\<lambda>mx.
           Inr (asc ''{'' @ mn @ asc ''..'' @ mx @ asc ''}'')))
      else Inr [])"

text \<open>
  The callback of the union branch (lines 203 to 229) up to its last line: \<open>None\<close>
  means that no special case applies and the callback returns \<^verbatim>\<open>getCompactType(p)\<close>.
  \<^verbatim>\<open>p.enum\<close> throws on a \<^verbatim>\<open>null\<close> member, and \<^verbatim>\<open>p.enum.map\<close> is a function only
  on an array.
\<close>

definition unionSpecial :: "json \<Rightarrow> (error + jsstring) option" where
  "unionSpecial p =
     (if p = JNull then Some (Inl TypeError)
      else if truthy (field p (asc ''enum'')) then
        Some (let e = the (field p (asc ''enum'')) in
          bindE (jsLessEq (jsLength e) 3) (\<lambda>small.
            if small then
              (case e of
                 JArr vs \<Rightarrow> bindE (enumValues vs) (\<lambda>s. Inr (asc ''enum('' @ s @ asc '')''))
               | _ \<Rightarrow> Inl TypeError)
            else bindE (ToStringU (jsLength e)) (\<lambda>n. Inr (asc ''enum('' @ n @ asc '')''))))
      else if field p (asc ''type'') = Some (JStr (asc ''number''))
            \<or> field p (asc ''type'') = Some (JStr (asc ''integer'')) then
        Some (bindE (constraint [8805] (field p (asc ''minimum''))) (\<lambda>c1.
              bindE (constraint [8804] (field p (asc ''maximum''))) (\<lambda>c2.
              Inr (if c1 @ c2 \<noteq> [] then asc ''number('' @ join (asc '','') (c1 @ c2) @ asc '')''
                   else asc ''number''))))
      else if field p (asc ''type'') = Some (JStr (asc ''object''))
            \<and> truthy (field p (asc ''properties'')) then
        Some (let propCount = length (entries (the (field p (asc ''properties''))))
              in Inr (if propCount \<le> 2 then asc ''object('' @ digits propCount @ asc '')''
                      else asc ''object''))
      else None)"

text \<open>
  The pattern constraint of a string (lines 252 to 255): \<^verbatim>\<open>slice(0, 10)\<close> exists on
  strings and arrays only.
\<close>

definition patternConstraint :: "json option \<Rightarrow> error + jsstring list" where
  "patternConstraint pat =
     (if truthy pat then
        bindE (jsGreater (jsLength (the pat)) 10) (\<lambda>long.
        bindE (if long then
                 (case the pat of
                    JStr s \<Rightarrow> Inr (JStr (take 10 s))
                  | JArr xs \<Rightarrow> Inr (JArr (take 10 xs))
                  | _ \<Rightarrow> Inl TypeError)
               else Inr (the pat)) (\<lambda>shortPattern.
        bindE (ToString shortPattern) (\<lambda>s. Inr [asc ''/'' @ s @ asc ''/''])))
      else Inr [])"

definition stringType :: "json option \<Rightarrow> jsstring" where
  "stringType format =
     (if format = Some (JStr (asc ''date'')) then asc ''date''
      else if format = Some (JStr (asc ''date-time'')) then asc ''datetime''
      else if format = Some (JStr (asc ''email'')) then asc ''email''
      else if format = Some (JStr (asc ''uri'')) \<or> format = Some (JStr (asc ''url'')) then asc ''url''
      else if format = Some (JStr (asc ''uuid'')) then asc ''uuid''
      else if format = Some (JStr (asc ''ipv4'')) then asc ''ipv4''
      else if format = Some (JStr (asc ''ipv6'')) then asc ''ipv6''
      else asc ''string'')"

text \<open>
  The final \<^verbatim>\<open>switch (prop.type)\<close> (lines 235 to 291). Its default case returns
  \<^verbatim>\<open>prop.type\<close> itself, which need not be a string; every caller puts the result into
  a template literal or a \<^verbatim>\<open>join\<close>, so the value is converted by \<open>ToString\<close> here.
\<close>

definition basicType :: "json \<Rightarrow> error + jsstring" where
  "basicType prop =
     (let type = field prop (asc ''type'') in
      if type = Some (JStr (asc ''string'')) then
        bindE (constraint [8805] (field prop (asc ''minLength''))) (\<lambda>c1.
        bindE (constraint [8804] (field prop (asc ''maxLength''))) (\<lambda>c2.
        bindE (patternConstraint (field prop (asc ''pattern''))) (\<lambda>c3.
        let constraints = c1 @ c2 @ c3;
            st = stringType (field prop (asc ''format''));
            finalType = (if constraints \<noteq> []
                         then st @ asc ''('' @ join (asc '','') constraints @ asc '')'' else st)
        in case field prop (asc ''default'') of
             None \<Rightarrow> Inr finalType
           | Some d \<Rightarrow>
               bindE (toStringMethod d) (\<lambda>s. Inr (finalType @ asc ''='' @ [34] @ escapeXml s @ [34])))))
      else if type = Some (JStr (asc ''number'')) \<or> type = Some (JStr (asc ''integer'')) then
        bindE (constraint [8805] (field prop (asc ''minimum''))) (\<lambda>c1.
        bindE (constraint [8804] (field prop (asc ''maximum''))) (\<lambda>c2.
        bindE (constraint [215] (field prop (asc ''multipleOf''))) (\<lambda>c3.
        let numConstraints = c1 @ c2 @ c3;
            finalType = (if numConstraints \<noteq> []
                         then asc ''number('' @ join (asc '','') numConstraints @ asc '')''
                         else asc ''number'')
        in case field prop (asc ''default'') of
             None \<Rightarrow> Inr finalType
           | Some d \<Rightarrow> bindE (ToString d) (\<lambda>s. Inr (finalType @ asc ''='' @ s)))))
      else if type = Some (JStr (asc ''boolean'')) then
        (case field prop (asc ''default'') of
           None \<Rightarrow> Inr (asc ''boolean'')
         | Some d \<Rightarrow> bindE (ToString d) (\<lambda>s. Inr (asc ''boolean='' @ s)))
      else if type = Some (JStr (asc ''null'')) then Inr (asc ''null'')
      else if truthy type then ToString (the type)
      else Inr (asc ''any''))"

subsection \<open>Sizes of the values the encoder descends into\<close>

lemma size_map_of: "map_of es k = Some v \<Longrightarrow> size v < Suc (size_list (size_prod (\<lambda>x. 0) size) es)"
  by (induction es) (auto split: if_splits)

lemma size_field: "field p k = Some v \<Longrightarrow> size v < size p"
  by (cases p) (auto dest: size_map_of)

lemma size_elem: "x \<in> set xs \<Longrightarrow> size x < Suc (size_list size xs)"
  by (induction xs) auto

lemma asArray_Some: "asArray v = Some xs \<longleftrightarrow> v = Some (JArr xs)"
  by (cases v rule: asArray.cases) auto

lemma size_asArray: "asArray (field p k) = Some xs \<Longrightarrow> x \<in> set xs \<Longrightarrow> size x < size p"
proof -
  assume a: "asArray (field p k) = Some xs" and x: "x \<in> set xs"
  from a have "field p k = Some (JArr xs)" by (simp add: asArray_Some)
  then have "size (JArr xs) < size p" by (rule size_field)
  moreover have "size x < size (JArr xs)" using x by (simp add: size_elem)
  ultimately show ?thesis by simp
qed

lemma size_entry: "(k, v) \<in> set es \<Longrightarrow> size v < Suc (size_list (size_prod (\<lambda>x. 0) size) es)"
  by (induction es) auto

lemma size_entries: "(k, v) \<in> set (entries x) \<Longrightarrow> size v \<le> size x"
proof (cases x)
  case (JArr xs)
  assume "(k, v) \<in> set (entries x)"
  then have "v \<in> set xs" using JArr by (auto dest: set_zip_rightD)
  then show ?thesis using JArr size_elem [of v xs] by simp
next
  case (JObj es)
  assume "(k, v) \<in> set (entries x)"
  then show ?thesis using JObj size_entry [of k v es] by simp
next
  case (JStr s)
  assume "(k, v) \<in> set (entries x)"
  then have "v \<in> set (map (\<lambda>c. JStr [c]) s)" using JStr by (auto dest: set_zip_rightD)
  then show ?thesis by auto
qed auto

lemma set_putIndex: "set (putIndex n k v es) = insert (k, v) (set es)"
  by (induction es) (auto split: option.splits if_splits)

lemma snd_setProp: "snd ` set (setProp k v es) \<subseteq> insert v (snd ` set es)"
  by (auto simp: setProp_def set_putIndex split: option.splits if_splits)

lemma snd_foldl_setProp:
  "snd ` set (foldl (\<lambda>t (k, v). setProp k v t) t src) \<subseteq> snd ` set t \<union> snd ` set src"
proof (induction src arbitrary: t)
  case Nil
  then show ?case by simp
next
  case (Cons a src)
  obtain k v where a: "a = (k, v)" by (cases a)
  have "snd ` set (foldl (\<lambda>t (k, v). setProp k v t) (setProp k v t) src)
          \<subseteq> snd ` set (setProp k v t) \<union> snd ` set src"
    by (rule Cons.IH)
  also have "\<dots> \<subseteq> insert v (snd ` set t) \<union> snd ` set src"
    using snd_setProp [of k v t] by blast
  finally show ?case using a by auto
qed

lemma snd_assign:
  "assign t src = Inr m \<Longrightarrow> snd ` set m \<subseteq> snd ` set t \<union> snd ` set (entries src)"
  using snd_foldl_setProp [of t "entries src"] by (auto simp: assign_def split: if_splits)

text \<open>Every value of the merged map is a property value of some member.\<close>

lemma mergeLoop_values:
  "mergeLoop acc ms = Inr merged \<Longrightarrow> v \<in> snd ` set merged \<Longrightarrow>
     v \<in> snd ` set acc \<or>
     (\<exists>m \<in> set ms. m \<noteq> JNull \<and> truthy (field m (asc ''properties''))
        \<and> v \<in> snd ` set (entries (the (field m (asc ''properties'')))))"
proof (induction ms arbitrary: acc)
  case Nil
  then show ?case by simp
next
  case (Cons m ms)
  show ?case
  proof (cases "m \<noteq> JNull \<and> truthy (field m (asc ''properties''))")
    case True
    from Cons.prems True obtain acc' where
      a: "assign acc (the (field m (asc ''properties''))) = Inr acc'"
      and l: "mergeLoop acc' ms = Inr merged"
      by (cases "assign acc (the (field m (asc ''properties'')))") auto
    from Cons.IH [OF l Cons.prems(2)] show ?thesis
    proof
      assume "v \<in> snd ` set acc'"
      with snd_assign [OF a] True show ?thesis by auto
    qed auto
  next
    case False
    with Cons.prems have "mergeLoop acc ms = Inr merged" by (auto split: if_splits)
    from Cons.IH [OF this Cons.prems(2)] show ?thesis by auto
  qed
qed

lemma size_the_field: "truthy (field p k) \<Longrightarrow> size (the (field p k)) < size p"
  by (cases "field p k") (auto dest: size_field)

lemma size_the_entries:
  "truthy (field p k) \<Longrightarrow> (a, y) \<in> set (entries (the (field p k))) \<Longrightarrow> size y < size p"
  using size_entries [of a y "the (field p k)"] size_the_field [of p k] by simp

lemma size_merged:
  "mergeAllOfProperties ms = Inr merged \<Longrightarrow> (k, v) \<in> set merged \<Longrightarrow> size v < size (JArr ms)"
proof -
  assume m: "mergeAllOfProperties ms = Inr merged" and v: "(k, v) \<in> set merged"
  from v have "v \<in> snd ` set merged" by force
  with m mergeLoop_values [of "[]" ms merged v]
  obtain m' k' where m': "m' \<in> set ms" "truthy (field m' (asc ''properties''))"
      "(k', v) \<in> set (entries (the (field m' (asc ''properties''))))"
    by (auto simp: mergeAllOfProperties_def)
  then have "size v < size m'" by (simp add: size_the_entries)
  also have "size m' < size (JArr ms)" using m' by (simp add: size_elem)
  finally show ?thesis .
qed

lemma size_the_asArray:
  "asArray (field p k) \<noteq> None \<Longrightarrow> x \<in> set (the (asArray (field p k))) \<Longrightarrow> size x < size p"
  by (auto dest: size_asArray)

lemma size_the_merged:
  "asArray (field p k) \<noteq> None \<Longrightarrow> mergeAllOfProperties (the (asArray (field p k))) = Inr m \<Longrightarrow>
     (a, y) \<in> set m \<Longrightarrow> size y < size p"
proof -
  assume a: "asArray (field p k) \<noteq> None"
    and m: "mergeAllOfProperties (the (asArray (field p k))) = Inr m" and y: "(a, y) \<in> set m"
  from a obtain ms where ms: "asArray (field p k) = Some ms" by auto
  then have "field p k = Some (JArr ms)" by (simp add: asArray_Some)
  then have "size (JArr ms) < size p" by (rule size_field)
  moreover have "size y < size (JArr ms)" using m y ms by (auto dest: size_merged)
  ultimately show ?thesis by simp
qed

subsection \<open>\<^verbatim>\<open>getCompactType\<close> and \<^verbatim>\<open>jsonSchemaToXml\<close>\<close>

text \<open>
  \<^verbatim>\<open>getCompactType\<close> (lines 128 to 292), in the order of its tests. The function is not
  exported; its callers pass property values, array elements and truthy \<^verbatim>\<open>items\<close>,
  never \<^verbatim>\<open>undefined\<close>. Its first test sends every value that is not an object or an
  array to \<^verbatim>\<open>"any"\<close>.
\<close>

function getCompactType :: "json \<Rightarrow> error + jsstring" where
  "getCompactType prop =
    (if \<not> isObject prop then Inr (asc ''any'')
     else if field prop (asc ''type'') = Some (JStr (asc ''array'')) then
       bindE
         (if truthy (field prop (asc ''items'')) then
            (if asArray (field prop (asc ''items'')) \<noteq> None then
               bindE (mapM getCompactType (the (asArray (field prop (asc ''items'')))))
                 (\<lambda>itemTypes. Inr (asc ''tuple['' @ join (asc '','') itemTypes @ asc '']''))
             else
               bindE (getCompactType (the (field prop (asc ''items''))))
                 (\<lambda>itemType. Inr (asc ''array['' @ itemType @ asc '']'')))
          else Inr (asc ''array[any]''))
         (\<lambda>arrayType. bindE (arrayConstraints prop) (\<lambda>c. Inr (arrayType @ c)))
     else if field prop (asc ''const'') \<noteq> None then
       bindE (toStringMethod (the (field prop (asc ''const''))))
         (\<lambda>s. Inr (asc ''const('' @ escapeXml s @ asc '')''))
     else if asArray (field prop (asc ''enum'')) \<noteq> None then
       (if length (the (asArray (field prop (asc ''enum'')))) \<le> ENUM_DISPLAY_THRESHOLD then
          bindE (enumValues (the (asArray (field prop (asc ''enum'')))))
            (\<lambda>safeEnumValues. Inr (asc ''enum('' @ safeEnumValues @ asc '')''))
        else Inr (asc ''enum''))
     else if asArray (field prop (asc ''allOf'')) \<noteq> None then
       bindE (mergeAllOfProperties (the (asArray (field prop (asc ''allOf''))))) (\<lambda>mergedProps.
         if length mergedProps > 0 then
           bindE (mapM (\<lambda>(k, v). bindE (getCompactType v) (\<lambda>t. Inr (escapeXml k @ asc '':'' @ t)))
                    mergedProps)
             (\<lambda>nestedProps. Inr (asc ''merged{'' @ join (asc '','') nestedProps @ asc ''}''))
         else Inr (asc ''merged''))
     else if field prop (asc ''type'') = Some (JStr (asc ''object'')) then
       (if truthy (field prop (asc ''properties''))
           \<and> length (entries (the (field prop (asc ''properties'')))) \<le> 2 then
          bindE (mapM (\<lambda>(k, v). bindE (getCompactType v) (\<lambda>t. Inr (escapeXml k @ asc '':'' @ t)))
                   (entries (the (field prop (asc ''properties'')))))
            (\<lambda>nestedProps. Inr (asc ''object{'' @ join (asc '','') nestedProps @ asc ''}''))
        else Inr (asc ''object''))
     else if truthy (field prop (asc ''oneOf'')) \<or> truthy (field prop (asc ''anyOf'')) then
       (let unionArray = (if truthy (field prop (asc ''oneOf'')) then field prop (asc ''oneOf'')
                          else field prop (asc ''anyOf''))
        in if asArray unionArray \<noteq> None then
             bindE (mapM (\<lambda>p. case unionSpecial p of Some r \<Rightarrow> r | None \<Rightarrow> getCompactType p)
                      (the (asArray unionArray)))
               (\<lambda>parts. Inr (join (asc ''|'') parts))
           else Inl TypeError)
     else basicType prop)"
  by pat_completeness auto

termination
proof (relation "measure size", goal_cases)
  case 1
  show ?case by simp
next
  case (2 pr x)
  then show ?case by (simp add: size_the_asArray)
next
  case (3 pr)
  then show ?case by (simp add: size_the_field)
next
  case (4 pr merged kv k v)
  then show ?case using size_the_merged [of pr "asc ''allOf''" merged k v] by simp
next
  case (5 pr kv k v)
  then show ?case using size_the_entries [of pr "asc ''properties''" k v] by simp
next
  case (6 pr u p)
  then show ?case by (auto dest: size_asArray split: if_splits)
qed

declare getCompactType.simps [simp del]

text \<open>
  \<^verbatim>\<open>required.includes(key)\<close> with \<^verbatim>\<open>required = schema.required || []\<close>: an array
  method on an array, a substring test on a string, and no function on anything else.
\<close>

definition requiredIncludes :: "json option \<Rightarrow> jsstring \<Rightarrow> error + bool" where
  "requiredIncludes required key =
     (case truthyOr required (JArr []) of
        JArr xs \<Rightarrow> Inr (JStr key \<in> set xs)
      | JStr s \<Rightarrow> Inr (includesStr key s)
      | _ \<Rightarrow> Inl TypeError)"

text \<open>The callback that builds one parameter (lines 97 to 102 and 112 to 118).\<close>

definition param :: "json option \<Rightarrow> jsstring \<times> json \<Rightarrow> error + jsstring" where
  "param required kp =
     (case kp of (key, prop) \<Rightarrow>
        bindE (requiredIncludes required key) (\<lambda>isRequired.
        bindE (getCompactType prop) (\<lambda>type.
        Inr (escapeXml key @ (if isRequired then asc ''*'' else asc ''?'') @ asc '':'' @ type))))"

text \<open>
  The \<^verbatim>\<open>allOf\<close> step at the root (lines 93 to 105): \<open>None\<close> when the step does not
  return and the function goes on to \<^verbatim>\<open>schema.properties\<close>.
\<close>

definition rootAllOf :: "json \<Rightarrow> (error + jsstring) option" where
  "rootAllOf schema =
     (if asArray (field schema (asc ''allOf'')) \<noteq> None then
        (case mergeAllOfProperties (the (asArray (field schema (asc ''allOf'')))) of
           Inl e \<Rightarrow> Some (Inl e)
         | Inr mergedProps \<Rightarrow>
             if length mergedProps > 0 then
               Some (bindE (mapM (param (field schema (asc ''required''))) mergedProps) (\<lambda>params.
                     Inr (asc ''<schema>merged{'' @ join (asc '', '') params @ asc ''}</schema>'')))
             else None)
      else None)"

text \<open>\<^verbatim>\<open>jsonSchemaToXml\<close> (lines 74 to 121); its argument may be \<^verbatim>\<open>undefined\<close>.\<close>

definition jsonSchemaToXml :: "json option \<Rightarrow> error + jsstring" where
  "jsonSchemaToXml s =
     (if \<not> truthy s \<or> \<not> isObject (the s) then Inr (asc ''<schema></schema>'')
      else let schema = the s in
        if field schema (asc ''type'') = Some (JStr (asc ''array''))
           \<and> truthy (field schema (asc ''items'')) then
          (if asArray (field schema (asc ''items'')) \<noteq> None then
             bindE (mapM getCompactType (the (asArray (field schema (asc ''items''))))) (\<lambda>itemTypes.
               Inr (asc ''<schema>tuple['' @ join (asc '','') itemTypes @ asc '']</schema>''))
           else
             bindE (getCompactType (the (field schema (asc ''items'')))) (\<lambda>itemType.
               Inr (asc ''<schema>array['' @ itemType @ asc '']</schema>'')))
        else
          (case rootAllOf schema of
             Some r \<Rightarrow> r
           | None \<Rightarrow>
               if \<not> truthy (field schema (asc ''properties''))
                  \<or> length (entries (the (field schema (asc ''properties'')))) = 0
               then Inr (asc ''<schema></schema>'')
               else bindE (mapM (param (field schema (asc ''required'')))
                             (entries (the (field schema (asc ''properties''))))) (\<lambda>params.
                      Inr (asc ''<schema>'' @ join (asc '', '') params @ asc ''</schema>''))))"

text \<open>The definitions a concrete input is evaluated with.\<close>

lemmas encoder_eval =
  asc_def getCompactType.simps basicType_def stringType_def constraint_def patternConstraint_def
  arrayConstraints_def jsonSchemaToXml_def rootAllOf_def param_def requiredIncludes_def
  escapeXml_def enumValues_def toStringMethod_def unionSpecial_def ENUM_DISPLAY_THRESHOLD_def
  mergeAllOfProperties_def assign_def setProp_def arrayIndex_def digits.simps showInt_def
  jsLessEq_def jsGreater_def

section \<open>Properties of the encoder\<close>

subsection \<open>Loops whose steps all succeed\<close>

lemma mapM_ok: "(\<And>x. x \<in> set xs \<Longrightarrow> \<exists>y. f x = Inr y) \<Longrightarrow> \<exists>ys. mapM f xs = Inr ys"
proof (induction xs)
  case Nil
  show ?case by simp
next
  case (Cons x xs)
  then obtain y ys where "f x = Inr y" "mapM f xs = Inr ys" by (meson list.set_intros)
  then show ?case by simp
qed

lemma mapM_Inr_each: "mapM f xs = Inr ys \<Longrightarrow> x \<in> set xs \<Longrightarrow> \<exists>y. f x = Inr y"
proof (induction xs arbitrary: ys)
  case Nil
  then show ?case by simp
next
  case (Cons a xs)
  obtain b where b: "f a = Inr b" using Cons.prems(1) by (cases "f a") simp_all
  obtain bs where bs: "mapM f xs = Inr bs" using Cons.prems(1) b by (cases "mapM f xs") simp_all
  show ?case using Cons.IH [OF bs] Cons.prems(2) b by auto
qed


lemma mapM_all2: "list_all2 (\<lambda>x y. f x = Inr y) xs ys \<Longrightarrow> mapM f xs = Inr ys"
  by (induction xs ys rule: list_all2_induct) auto

lemma mapM_map2:
  "list_all2 (\<lambda>x y. f x = Inr (g x y)) xs ys \<Longrightarrow> mapM f xs = Inr (map2 g xs ys)"
  by (induction xs ys rule: list_all2_induct) auto

lemma requiredIncludes_array:
  "required = None \<and> reqs = [] \<or> required = Some (JArr reqs) \<Longrightarrow>
     requiredIncludes required key = Inr (JStr key \<in> set reqs)"
  by (auto simp: requiredIncludes_def)

lemma param_all2:
  assumes req: "required = None \<and> reqs = [] \<or> required = Some (JArr reqs)"
    and types: "list_all2 (\<lambda>(key, prop) type. getCompactType prop = Inr type) es ts"
  shows "mapM (param required) es =
     Inr (map2 (\<lambda>(key, prop) type.
            escapeXml key @ (if JStr key \<in> set reqs then asc ''*'' else asc ''?'') @ asc '':'' @ type) es ts)"
proof (rule mapM_map2)
  show "list_all2 (\<lambda>x y. param required x = Inr ((case x of (key, prop) \<Rightarrow> \<lambda>type.
            escapeXml key @ (if JStr key \<in> set reqs then asc ''*'' else asc ''?'') @ asc '':'' @ type) y)) es ts"
    using types
    by (rule list_all2_mono) (auto simp: param_def requiredIncludes_array [OF req])
qed

subsection \<open>The order in which an object enumerates its properties\<close>

text \<open>
  \<open>objectOf\<close> keeps the keys written. When they are distinct, it lists the array indices
  first, in ascending numeric order, and then the other keys in the order of writing.
\<close>

lemma fst_replace:
  "fst ` set (map (\<lambda>(k', v'). if k' = k then (k', v) else (k', v')) es) = fst ` set es"
  by (induction es) auto

lemma fst_setProp: "fst ` set (setProp k v es) = insert k (fst ` set es)"
proof (cases "map_of es k")
  case None
  then show ?thesis by (auto simp: setProp_def set_putIndex split: option.splits)
next
  case (Some y)
  then have k: "k \<in> fst ` set es" by (metis map_of_eq_None_iff option.distinct(1))
  have "setProp k v es = map (\<lambda>(k', v'). if k' = k then (k', v) else (k', v')) es"
    using Some by (simp add: setProp_def)
  then have "fst ` set (setProp k v es) = fst ` set es" by (simp only: fst_replace)
  then show ?thesis using k by auto
qed

lemma objectOf_snoc: "objectOf (ins @ [(k, v)]) = setProp k v (objectOf ins)"
  by (simp add: objectOf_def)

lemma keys_objectOf: "fst ` set (objectOf ins) = fst ` set ins"
proof (induction ins rule: rev_induct)
  case Nil
  show ?case by (simp add: objectOf_def)
next
  case (snoc x xs)
  obtain k v where x: "x = (k, v)" by (cases x)
  show ?case using snoc by (simp add: x objectOf_snoc fst_setProp)
qed

lemma objectOf_not_Nil: "ins \<noteq> [] \<Longrightarrow> objectOf ins \<noteq> []"
  using keys_objectOf [of ins] by (cases ins) auto

lemma arrayIndex_digits: "arrayIndex k = Some n \<Longrightarrow> k = digits n"
  by (auto simp: arrayIndex_def Let_def split: if_splits)

lemma putIndex_insort:
  assumes "\<forall>e \<in> set S. arrayIndex (fst e) \<noteq> None" and "\<forall>e \<in> set N. arrayIndex (fst e) = None"
    and "arrayIndex k = Some n"
  shows "putIndex n k v (S @ N) = insort_key (\<lambda>e. the (arrayIndex (fst e))) (k, v) S @ N"
  using assms
proof (induction S)
  case Nil
  then show ?case by (cases N) auto
next
  case (Cons e S)
  obtain k' v' where e: "e = (k', v')" by (cases e)
  obtain m where m: "arrayIndex k' = Some m" using Cons.prems(1) e by auto
  show ?case
  proof (cases "m < n")
    case True
    then show ?thesis using Cons e m by simp
  next
    case False
    then show ?thesis using Cons.prems e m by simp
  qed
qed

lemma sort_key_snoc:
  "f x \<notin> f ` set xs \<Longrightarrow> sort_key f (xs @ [x]) = insort_key f x (sort_key f xs)"
proof (induction xs)
  case Nil
  show ?case by simp
next
  case (Cons a xs)
  then have "f a \<noteq> f x" by auto
  then show ?case using Cons by (simp add: insort_key_left_comm)
qed

lemma objectOf_order:
  assumes "distinct (map fst ins)"
  shows "objectOf ins =
     sort_key (\<lambda>e. the (arrayIndex (fst e))) (filter (\<lambda>e. arrayIndex (fst e) \<noteq> None) ins)
     @ filter (\<lambda>e. arrayIndex (fst e) = None) ins"
  using assms
proof (induction ins rule: rev_induct)
  case Nil
  show ?case by (simp add: objectOf_def)
next
  case (snoc x xs)
  obtain k v where x: "x = (k, v)" by (cases x)
  let ?f = "\<lambda>e. the (arrayIndex (fst e))"
  let ?S = "sort_key ?f (filter (\<lambda>e. arrayIndex (fst e) \<noteq> None) xs)"
  let ?N = "filter (\<lambda>e. arrayIndex (fst e) = None) xs"
  have ih: "objectOf xs = ?S @ ?N" using snoc by simp
  have new: "k \<notin> fst ` set xs" using snoc.prems by (simp add: x)
  then have "k \<notin> fst ` set (objectOf xs)" by (simp add: keys_objectOf)
  then have none: "map_of (objectOf xs) k = None" by (simp add: map_of_eq_None_iff)
  show ?case
  proof (cases "arrayIndex k")
    case None
    then show ?thesis using none ih by (simp add: x objectOf_snoc setProp_def)
  next
    case (Some n)
    have S: "\<forall>e \<in> set ?S. arrayIndex (fst e) \<noteq> None" by simp
    have N: "\<forall>e \<in> set ?N. arrayIndex (fst e) = None" by simp
    have fresh: "?f (k, v) \<notin> ?f ` set (filter (\<lambda>e. arrayIndex (fst e) \<noteq> None) xs)"
    proof
      assume "?f (k, v) \<in> ?f ` set (filter (\<lambda>e. arrayIndex (fst e) \<noteq> None) xs)"
      then obtain e where e: "e \<in> set xs" "arrayIndex (fst e) \<noteq> None"
        "the (arrayIndex (fst e)) = n" using Some by auto
      then have "arrayIndex (fst e) = Some n" by auto
      then have "fst e = k"
        using arrayIndex_digits [of "fst e" n] arrayIndex_digits [OF Some] by simp
      then show False using new e(1) by auto
    qed
    have "objectOf (xs @ [x]) = putIndex n k v (?S @ ?N)"
      using none Some ih by (simp add: x objectOf_snoc setProp_def)
    also have "\<dots> = insort_key ?f (k, v) ?S @ ?N"
      by (rule putIndex_insort [OF S N Some])
    also have "insort_key ?f (k, v) ?S
                 = sort_key ?f (filter (\<lambda>e. arrayIndex (fst e) \<noteq> None) xs @ [(k, v)])"
      by (rule sort_key_snoc [OF fresh, symmetric])
    finally show ?thesis using Some by (simp add: x)
  qed
qed

lemma objectOf_insertion_order:
  assumes "distinct (map fst ins)" and "\<forall>e \<in> set ins. arrayIndex (fst e) = None"
  shows "objectOf ins = ins"
proof -
  have "filter (\<lambda>e. arrayIndex (fst e) \<noteq> None) ins = []" using assms(2) by (simp add: filter_empty_conv)
  moreover have "filter (\<lambda>e. arrayIndex (fst e) = None) ins = ins" using assms(2) by simp
  ultimately show ?thesis using objectOf_order [OF assms(1)] by simp
qed

lemma objectOf_a_b:
  "objectOf [(asc ''a'', JObj [(asc ''type'', JStr (asc ''string''))]),
             (asc ''b'', JObj [(asc ''type'', JStr (asc ''number''))])]
   = [(asc ''a'', JObj [(asc ''type'', JStr (asc ''string''))]),
      (asc ''b'', JObj [(asc ''type'', JStr (asc ''number''))])]"
  by (simp add: objectOf_def setProp_def arrayIndex_def asc_def digits.simps)

lemma objectOf_b_1:
  "objectOf [(asc ''b'', JObj [(asc ''type'', JStr (asc ''string''))]),
             (asc ''1'', JObj [(asc ''type'', JStr (asc ''number''))])]
   = [(asc ''1'', JObj [(asc ''type'', JStr (asc ''number''))]),
      (asc ''b'', JObj [(asc ''type'', JStr (asc ''string''))])]"
  by (simp add: objectOf_def setProp_def arrayIndex_def asc_def digits.simps)

subsection \<open>The parameter list\<close>

text \<open>
  Claim C2 (required markers), as the code has it. Let the root schema be an object that
  does not take the array step (its \<^verbatim>\<open>type\<close> is not \<^verbatim>\<open>"array"\<close>, or \<^verbatim>\<open>items\<close> is
  falsy) nor the \<^verbatim>\<open>allOf\<close> step (\<^verbatim>\<open>allOf\<close> is not an array, or it merges to no
  property), let its \<^verbatim>\<open>properties\<close> be the object built from the entries \<open>ins\<close>,
  inserted in this order and not empty, and let \<^verbatim>\<open>required\<close> be absent or the array
  \<open>reqs\<close>. If \<open>ts\<close> are the encoded types of the properties, then \<^verbatim>\<open>jsonSchemaToXml\<close>
  returns the properties in the order in which the object enumerates them
  (\<^verbatim>\<open>Object.entries\<close>, line 112), each as the escaped key, then \<^verbatim>\<open>*\<close> if the key is in
  \<^verbatim>\<open>required\<close> and \<^verbatim>\<open>?\<close> if not, then a colon, then the type, joined by a comma and a
  space between \<^verbatim>\<open><schema>\<close> and \<^verbatim>\<open></schema>\<close>. For distinct keys that order is: the
  keys that are array indices, in ascending numeric order, then the other keys in
  insertion order; it is the insertion order when no key is an array index.
  The witness is the schema of the claim, with the output the claim gives for it, and
  a schema whose properties \<^verbatim>\<open>b\<close> and \<^verbatim>\<open>1\<close> are inserted in this order.
\<close>

theorem required_marker_correctness:
  assumes obj: "isObject schema"
    and no_array: "\<not> (field schema (asc ''type'') = Some (JStr (asc ''array''))
                      \<and> truthy (field schema (asc ''items'')))"
    and no_allOf: "asArray (field schema (asc ''allOf'')) = None
                   \<or> mergeAllOfProperties (the (asArray (field schema (asc ''allOf'')))) = Inr []"
    and props: "field schema (asc ''properties'') = Some (JObj (objectOf ins))" "ins \<noteq> []"
    and req: "field schema (asc ''required'') = None \<and> reqs = []
              \<or> field schema (asc ''required'') = Some (JArr reqs)"
    and types: "list_all2 (\<lambda>(key, prop) type. getCompactType prop = Inr type) (objectOf ins) ts"
  shows "jsonSchemaToXml (Some schema) =
     Inr (asc ''<schema>''
          @ join (asc '', '')
              (map2 (\<lambda>(key, prop) type.
                 escapeXml key @ (if JStr key \<in> set reqs then asc ''*'' else asc ''?'') @ asc '':'' @ type)
               (objectOf ins) ts)
          @ asc ''</schema>'')
   \<and> (distinct (map fst ins) \<longrightarrow>
        objectOf ins =
          sort_key (\<lambda>e. the (arrayIndex (fst e))) (filter (\<lambda>e. arrayIndex (fst e) \<noteq> None) ins)
          @ filter (\<lambda>e. arrayIndex (fst e) = None) ins)
   \<and> (distinct (map fst ins) \<and> (\<forall>e \<in> set ins. arrayIndex (fst e) = None) \<longrightarrow> objectOf ins = ins)"
proof (intro conjI impI)
  have t: "truthy (Some schema)" using obj by (cases schema) auto
  have r: "rootAllOf schema = None" using no_allOf by (auto simp: rootAllOf_def)
  have ne: "objectOf ins \<noteq> []" using props(2) by (rule objectOf_not_Nil)
  show "jsonSchemaToXml (Some schema) =
     Inr (asc ''<schema>''
          @ join (asc '', '')
              (map2 (\<lambda>(key, prop) type.
                 escapeXml key @ (if JStr key \<in> set reqs then asc ''*'' else asc ''?'') @ asc '':'' @ type)
               (objectOf ins) ts)
          @ asc ''</schema>'')"
    using t obj no_array r props(1) ne param_all2 [OF req types]
    by (auto simp: jsonSchemaToXml_def)
next
  assume "distinct (map fst ins)"
  then show "objectOf ins =
          sort_key (\<lambda>e. the (arrayIndex (fst e))) (filter (\<lambda>e. arrayIndex (fst e) \<noteq> None) ins)
          @ filter (\<lambda>e. arrayIndex (fst e) = None) ins"
    by (rule objectOf_order)
next
  assume "distinct (map fst ins) \<and> (\<forall>e \<in> set ins. arrayIndex (fst e) = None)"
  then show "objectOf ins = ins" using objectOf_insertion_order by blast
qed

theorem required_marker_correctness_witness:
  "jsonSchemaToXml (Some (JObj [
      (asc ''type'', JStr (asc ''object'')),
      (asc ''properties'', JObj (objectOf [(asc ''a'', JObj [(asc ''type'', JStr (asc ''string''))]),
                                 (asc ''b'', JObj [(asc ''type'', JStr (asc ''number''))])])),
      (asc ''required'', JArr [JStr (asc ''a'')])]))
   = Inr (asc ''<schema>a*:string, b?:number</schema>'')
   \<and> objectOf [(asc ''a'', JObj [(asc ''type'', JStr (asc ''string''))]),
               (asc ''b'', JObj [(asc ''type'', JStr (asc ''number''))])]
      = [(asc ''a'', JObj [(asc ''type'', JStr (asc ''string''))]),
         (asc ''b'', JObj [(asc ''type'', JStr (asc ''number''))])]
   \<and> jsonSchemaToXml (Some (JObj [
      (asc ''type'', JStr (asc ''object'')),
      (asc ''properties'', JObj (objectOf [(asc ''b'', JObj [(asc ''type'', JStr (asc ''string''))]),
                                 (asc ''1'', JObj [(asc ''type'', JStr (asc ''number''))])])),
      (asc ''required'', JArr [JStr (asc ''b'')])]))
   = Inr (asc ''<schema>1?:number, b*:string</schema>'')"
proof -
  have 1: "jsonSchemaToXml (Some (JObj [
      (asc ''type'', JStr (asc ''object'')),
      (asc ''properties'', JObj (objectOf [(asc ''a'', JObj [(asc ''type'', JStr (asc ''string''))]),
                                 (asc ''b'', JObj [(asc ''type'', JStr (asc ''number''))])])),
      (asc ''required'', JArr [JStr (asc ''a'')])]))
   = Inr (asc ''<schema>a*:string, b?:number</schema>'')
   \<and> objectOf [(asc ''a'', JObj [(asc ''type'', JStr (asc ''string''))]),
               (asc ''b'', JObj [(asc ''type'', JStr (asc ''number''))])]
      = [(asc ''a'', JObj [(asc ''type'', JStr (asc ''string''))]),
         (asc ''b'', JObj [(asc ''type'', JStr (asc ''number''))])]"
    using required_marker_correctness [of
      "JObj [
      (asc ''type'', JStr (asc ''object'')),
      (asc ''properties'', JObj (objectOf [(asc ''a'', JObj [(asc ''type'', JStr (asc ''string''))]),
                                 (asc ''b'', JObj [(asc ''type'', JStr (asc ''number''))])])),
      (asc ''required'', JArr [JStr (asc ''a'')])]"
      "[(asc ''a'', JObj [(asc ''type'', JStr (asc ''string''))]),
        (asc ''b'', JObj [(asc ''type'', JStr (asc ''number''))])]"
      "[JStr (asc ''a'')]"
      "[asc ''string'', asc ''number'']"]
    by (simp add: objectOf_a_b) (simp add: encoder_eval)
  have 2: "jsonSchemaToXml (Some (JObj [
      (asc ''type'', JStr (asc ''object'')),
      (asc ''properties'', JObj (objectOf [(asc ''b'', JObj [(asc ''type'', JStr (asc ''string''))]),
                                 (asc ''1'', JObj [(asc ''type'', JStr (asc ''number''))])])),
      (asc ''required'', JArr [JStr (asc ''b'')])]))
   = Inr (asc ''<schema>1?:number, b*:string</schema>'')"
    using required_marker_correctness [of
      "JObj [
      (asc ''type'', JStr (asc ''object'')),
      (asc ''properties'', JObj (objectOf [(asc ''b'', JObj [(asc ''type'', JStr (asc ''string''))]),
                                 (asc ''1'', JObj [(asc ''type'', JStr (asc ''number''))])])),
      (asc ''required'', JArr [JStr (asc ''b'')])]"
      "[(asc ''b'', JObj [(asc ''type'', JStr (asc ''string''))]),
        (asc ''1'', JObj [(asc ''type'', JStr (asc ''number''))])]"
      "[JStr (asc ''b'')]"
      "[asc ''number'', asc ''string'']"]
    by (simp add: objectOf_b_1) (simp add: encoder_eval)
  from 1 2 show ?thesis by blast
qed

text \<open>
  The claim as stated has the entries in insertion order. For the properties \<^verbatim>\<open>b\<close> and
  \<^verbatim>\<open>1\<close>, inserted in this order, that is \<^verbatim>\<open>b?:string, 1?:number\<close>; the code returns
  \<^verbatim>\<open>1?:number, b?:string\<close>.
\<close>

theorem insertion_order_counterexample:
  "jsonSchemaToXml (Some (JObj [
      (asc ''type'', JStr (asc ''object'')),
      (asc ''properties'', JObj (objectOf [(asc ''b'', JObj [(asc ''type'', JStr (asc ''string''))]),
                                 (asc ''1'', JObj [(asc ''type'', JStr (asc ''number''))])]))]))
   = Inr (asc ''<schema>1?:number, b?:string</schema>'')
   \<and> jsonSchemaToXml (Some (JObj [
      (asc ''type'', JStr (asc ''object'')),
      (asc ''properties'', JObj (objectOf [(asc ''b'', JObj [(asc ''type'', JStr (asc ''string''))]),
                                 (asc ''1'', JObj [(asc ''type'', JStr (asc ''number''))])]))]))
   \<noteq> Inr (asc ''<schema>b?:string, 1?:number</schema>'')"
  by (simp add: objectOf_b_1) (simp add: encoder_eval)


subsection \<open>An array at the root\<close>

lemma root_array_branch:
  assumes "isObject schema"
    and "field schema (asc ''type'') = Some (JStr (asc ''array''))"
    and "truthy (field schema (asc ''items''))"
  shows "jsonSchemaToXml (Some schema) =
     (if asArray (field schema (asc ''items'')) \<noteq> None then
        bindE (mapM getCompactType (the (asArray (field schema (asc ''items''))))) (\<lambda>itemTypes.
          Inr (asc ''<schema>tuple['' @ join (asc '','') itemTypes @ asc '']</schema>''))
      else
        bindE (getCompactType (the (field schema (asc ''items'')))) (\<lambda>itemType.
          Inr (asc ''<schema>array['' @ itemType @ asc '']</schema>'')))"
proof -
  have "truthy (Some schema)" using assms(1) by (cases schema) auto
  then show ?thesis using assms by (simp add: jsonSchemaToXml_def)
qed

text \<open>
  Claim C7 (array at the root), as the code has it. For a root schema that is an object
  whose \<^verbatim>\<open>type\<close> is \<^verbatim>\<open>"array"\<close> and whose \<^verbatim>\<open>items\<close> is truthy, \<^verbatim>\<open>jsonSchemaToXml\<close>
  does not look at \<^verbatim>\<open>properties\<close>: when \<^verbatim>\<open>items\<close> is an array whose elements encode
  to \<open>ts\<close>, the result is \<^verbatim>\<open><schema>tuple[\<close>, \<open>ts\<close> joined by commas,
  \<^verbatim>\<open>]</schema>\<close>; when \<^verbatim>\<open>items\<close> is not an array and encodes to \<open>t\<close>, the result is
  \<^verbatim>\<open><schema>array[\<close>, \<open>t\<close>, \<^verbatim>\<open>]</schema>\<close>.
\<close>

theorem root_array_bypass:
  assumes obj: "isObject schema"
    and type: "field schema (asc ''type'') = Some (JStr (asc ''array''))"
    and items: "truthy (field schema (asc ''items''))"
  shows "(\<forall>xs ts. field schema (asc ''items'') = Some (JArr xs)
             \<and> list_all2 (\<lambda>x t. getCompactType x = Inr t) xs ts \<longrightarrow>
           jsonSchemaToXml (Some schema) =
             Inr (asc ''<schema>tuple['' @ join (asc '','') ts @ asc '']</schema>''))
       \<and> (\<forall>item t. field schema (asc ''items'') = Some item \<and> asArray (Some item) = None
             \<and> getCompactType item = Inr t \<longrightarrow>
           jsonSchemaToXml (Some schema) = Inr (asc ''<schema>array['' @ t @ asc '']</schema>''))"
proof (intro conjI allI impI)
  fix xs ts
  assume a: "field schema (asc ''items'') = Some (JArr xs)
            \<and> list_all2 (\<lambda>x t. getCompactType x = Inr t) xs ts"
  then have "mapM getCompactType xs = Inr ts" by (simp add: mapM_all2)
  with a show "jsonSchemaToXml (Some schema) =
      Inr (asc ''<schema>tuple['' @ join (asc '','') ts @ asc '']</schema>'')"
    using root_array_branch [OF obj type items] by simp
next
  fix item t
  assume a: "field schema (asc ''items'') = Some item \<and> asArray (Some item) = None \<and> getCompactType item = Inr t"
  then have "asArray (field schema (asc ''items'')) = None" by simp
  with a show "jsonSchemaToXml (Some schema) = Inr (asc ''<schema>array['' @ t @ asc '']</schema>'')"
    using root_array_branch [OF obj type items] by simp
qed

theorem root_array_bypass_witness:
  "jsonSchemaToXml (Some (JObj [(asc ''type'', JStr (asc ''array'')),
        (asc ''items'', JObj [(asc ''type'', JStr (asc ''string''))])]))
     = Inr (asc ''<schema>array[string]</schema>'')
   \<and> jsonSchemaToXml (Some (JObj [(asc ''type'', JStr (asc ''array'')),
        (asc ''items'', JArr [JObj [(asc ''type'', JStr (asc ''string''))],
                              JObj [(asc ''type'', JStr (asc ''number''))]])]))
     = Inr (asc ''<schema>tuple[string,number]</schema>'')"
  using root_array_bypass [of "JObj [(asc ''type'', JStr (asc ''array'')),
        (asc ''items'', JObj [(asc ''type'', JStr (asc ''string''))])]"]
    root_array_bypass [of "JObj [(asc ''type'', JStr (asc ''array'')),
        (asc ''items'', JArr [JObj [(asc ''type'', JStr (asc ''string''))],
                              JObj [(asc ''type'', JStr (asc ''number''))]])]"]
  by (simp add: encoder_eval)

text \<open>
  The claim as stated gives the result as \<^verbatim>\<open><schema>\<close>, the encoded \<^verbatim>\<open>items\<close>,
  \<^verbatim>\<open></schema>\<close>. For the schema of its own example the encoded \<^verbatim>\<open>items\<close> is
  \<^verbatim>\<open>string\<close>, and the result is not \<^verbatim>\<open><schema>string</schema>\<close>: the code wraps the
  encoded \<^verbatim>\<open>items\<close> in \<^verbatim>\<open>array[\<close> and \<^verbatim>\<open>]\<close>.
\<close>

theorem root_array_bypass_counterexample:
  "jsonSchemaToXml (Some (JObj [(asc ''type'', JStr (asc ''array'')),
        (asc ''items'', JObj [(asc ''type'', JStr (asc ''string''))])]))
     = Inr (asc ''<schema>array[string]</schema>'')
   \<and> getCompactType (JObj [(asc ''type'', JStr (asc ''string''))]) = Inr (asc ''string'')
   \<and> jsonSchemaToXml (Some (JObj [(asc ''type'', JStr (asc ''array'')),
        (asc ''items'', JObj [(asc ''type'', JStr (asc ''string''))])]))
     \<noteq> Inr (asc ''<schema>'' @ asc ''string'' @ asc ''</schema>'')"
  by (simp add: encoder_eval)

subsection \<open>Enumerations\<close>

lemma mapM_bindE_Inr:
  "mapM (\<lambda>v. bindE (f v) (\<lambda>s. Inr (g s))) vs = bindE (mapM f vs) (\<lambda>ss. Inr (map g ss))"
proof (induction vs)
  case Nil
  show ?case by simp
next
  case (Cons v vs)
  show ?case
    by (cases "f v"; cases "mapM f vs") (simp_all add: Cons.IH)
qed

lemma enumValues_eq:
  "enumValues vs = bindE (mapM toStringMethod vs) (\<lambda>ss. Inr (join (asc ''|'') (map escapeXml ss)))"
  by (cases "mapM toStringMethod vs") (simp_all add: enumValues_def mapM_bindE_Inr)

lemma enum_branch:
  assumes "isObject prop"
    and "field prop (asc ''type'') \<noteq> Some (JStr (asc ''array''))"
    and "field prop (asc ''const'') = None"
    and "field prop (asc ''enum'') = Some (JArr vs)"
  shows "getCompactType prop =
     (if length vs \<le> 3
      then bindE (mapM toStringMethod vs) (\<lambda>ss.
             Inr (asc ''enum('' @ join (asc ''|'') (map escapeXml ss) @ asc '')''))
      else Inr (asc ''enum''))"
  using assms
  by (cases "mapM toStringMethod vs")
     (simp_all add: getCompactType.simps [of "prop"] ENUM_DISPLAY_THRESHOLD_def enumValues_eq)

text \<open>\<open>coercible\<close> is exact: these are the values whose string conversion returns.\<close>

lemma coercible_ToString: "coercible v \<Longrightarrow> \<exists>s. ToString v = Inr s"
proof (induction v rule: ToString.induct)
  case (5 xs)
  have "\<exists>ss. mapM (\<lambda>x. if x = JNull then Inr [] else ToString x) xs = Inr ss"
  proof (rule mapM_ok)
    fix x assume "x \<in> set xs"
    then show "\<exists>y. (if x = JNull then Inr [] else ToString x) = Inr y"
      using 5 by (cases "x = JNull") auto
  qed
  then show ?case by auto
qed auto

lemma ToString_coercible: "ToString v = Inr s \<Longrightarrow> coercible v"
proof (induction v arbitrary: s rule: ToString.induct)
  case (5 xs)
  from "5.prems" obtain ss where ss: "mapM (\<lambda>x. if x = JNull then Inr [] else ToString x) xs = Inr ss"
    by (cases "mapM (\<lambda>x. if x = JNull then Inr [] else ToString x) xs") simp_all
  have "\<forall>x \<in> set xs. coercible x"
  proof
    fix x assume x: "x \<in> set xs"
    show "coercible x"
    proof (cases "x = JNull")
      case True
      then show ?thesis by simp
    next
      case False
      from mapM_Inr_each [OF ss x] False obtain y where "ToString x = Inr y" by auto
      then show ?thesis using "5.IH" [OF x False] by blast
    qed
  qed
  then show ?case by simp
qed (auto split: if_splits)

lemma coercible_iff: "coercible v \<longleftrightarrow> (\<exists>s. ToString v = Inr s)"
  using coercible_ToString ToString_coercible by blast




text \<open>
  Claim C10 (empty enum). For a property that reaches the enum test and whose \<^verbatim>\<open>enum\<close>
  is the empty array, \<^verbatim>\<open>getCompactType\<close> returns exactly \<^verbatim>\<open>enum()\<close>.
\<close>

theorem empty_enum_encoding:
  assumes "isObject prop"
    and "field prop (asc ''type'') \<noteq> Some (JStr (asc ''array''))"
    and "field prop (asc ''const'') = None"
    and "field prop (asc ''enum'') = Some (JArr [])"
  shows "getCompactType prop = Inr (asc ''enum()'')"
  using enum_branch [OF assms] by (simp add: asc_def)

theorem empty_enum_encoding_witness:
  "getCompactType (JObj [(asc ''type'', JStr (asc ''string'')), (asc ''enum'', JArr [])])
     = Inr (asc ''enum()'')"
  using empty_enum_encoding [of "JObj [(asc ''type'', JStr (asc ''string'')), (asc ''enum'', JArr [])]"]
  by (simp add: asc_def)

subsection \<open>Escaping\<close>

text \<open>What \<^verbatim>\<open>escapeXml\<close> returns holds no \<^verbatim>\<open><\<close>, \<^verbatim>\<open>>\<close>, double quote or apostrophe.\<close>

lemma replaceAll_removes: "c \<notin> set r \<Longrightarrow> c \<notin> set (replaceAll c r xs)"
  by (induction xs) auto

lemma replaceAll_keeps_out: "x \<notin> set r \<Longrightarrow> x \<notin> set xs \<Longrightarrow> x \<notin> set (replaceAll c r xs)"
  by (induction xs) auto

lemma escapeXml_no_markup: "set (escapeXml s) \<inter> {60, 62, 34, 39} = {}"
proof -
  let ?a = "replaceAll 38 (asc ''&amp;'') s"
  let ?b = "replaceAll 60 (asc ''&lt;'') ?a"
  let ?c = "replaceAll 62 (asc ''&gt;'') ?b"
  let ?d = "replaceAll 34 (asc ''&quot;'') ?c"
  let ?e = "replaceAll 39 (asc ''&apos;'') ?d"
  have lt: "60 \<notin> set (asc ''&gt;'')" "60 \<notin> set (asc ''&quot;'')" "60 \<notin> set (asc ''&apos;'')"
    and gt: "62 \<notin> set (asc ''&gt;'')" "62 \<notin> set (asc ''&quot;'')" "62 \<notin> set (asc ''&apos;'')"
    and qu: "34 \<notin> set (asc ''&quot;'')" "34 \<notin> set (asc ''&apos;'')"
    and ap: "39 \<notin> set (asc ''&apos;'')" and l0: "60 \<notin> set (asc ''&lt;'')"
    by (simp_all add: asc_def)
  have b: "60 \<notin> set ?b" by (rule replaceAll_removes [OF l0])
  have c1: "60 \<notin> set ?c" by (rule replaceAll_keeps_out [OF lt(1) b])
  have c2: "62 \<notin> set ?c" by (rule replaceAll_removes [OF gt(1)])
  have d1: "60 \<notin> set ?d" by (rule replaceAll_keeps_out [OF lt(2) c1])
  have d2: "62 \<notin> set ?d" by (rule replaceAll_keeps_out [OF gt(2) c2])
  have d3: "34 \<notin> set ?d" by (rule replaceAll_removes [OF qu(1)])
  have "60 \<notin> set ?e" by (rule replaceAll_keeps_out [OF lt(3) d1])
  moreover have "62 \<notin> set ?e" by (rule replaceAll_keeps_out [OF gt(3) d2])
  moreover have "34 \<notin> set ?e" by (rule replaceAll_keeps_out [OF qu(2) d3])
  moreover have "39 \<notin> set ?e" by (rule replaceAll_removes [OF ap])
  ultimately show ?thesis by (simp add: escapeXml_def)
qed

text \<open>
  Claim C3 (no raw markup in the output) does not hold of the code. Keys, enum values,
  \<^verbatim>\<open>const\<close> and the default of a string go through \<^verbatim>\<open>escapeXml\<close>, but the
  \<^verbatim>\<open>pattern\<close> of a string is put between the slashes as it is (line 254). For the
  schema with the one property \<^verbatim>\<open>p\<close> of type \<^verbatim>\<open>string\<close> and pattern \<^verbatim>\<open><b>\<close> the
  result holds \<^verbatim>\<open><b>\<close> unescaped, between the two tags.
\<close>

theorem pattern_emitted_unescaped:
  "jsonSchemaToXml (Some (JObj [(asc ''properties'',
      JObj [(asc ''p'', JObj [(asc ''type'', JStr (asc ''string'')),
                              (asc ''pattern'', JStr (asc ''<b>''))])])]))
   = Inr (asc ''<schema>p?:string(/<b>/)</schema>'')"
  by (simp add: encoder_eval)


theorem pattern_emitted_unescaped_witness:
  "\<exists>out. jsonSchemaToXml (Some (JObj [(asc ''properties'',
      JObj [(asc ''p'', JObj [(asc ''type'', JStr (asc ''string'')),
                              (asc ''pattern'', JStr (asc ''<b>''))])])])) = Inr out
     \<and> 60 \<in> set (take (length out - 17) (drop 8 out))
     \<and> 62 \<in> set (take (length out - 17) (drop 8 out))"
  using pattern_emitted_unescaped by (simp add: asc_def)


section \<open>Inputs on which the encoder returns\<close>

text \<open>
  The encoder throws on some inputs (see the end of this section).
  \<open>tame\<close> describes, node by node and without reference to the order of the tests in
  \<^verbatim>\<open>getCompactType\<close>, a set of inputs on which it does not:
  \<^item> no \<^verbatim>\<open>const\<close> and no \<^verbatim>\<open>default\<close> is \<^verbatim>\<open>null\<close>;
  \<^item> every \<^verbatim>\<open>enum\<close>, \<^verbatim>\<open>oneOf\<close>, \<^verbatim>\<open>anyOf\<close> and \<^verbatim>\<open>allOf\<close> is absent, falsy, or an
    array without a \<^verbatim>\<open>null\<close> element (\<open>okList\<close>);
  \<^item> no \<^verbatim>\<open>pattern\<close> is an object;
  \<^item> no object has a key \<^verbatim>\<open>toString\<close> or \<^verbatim>\<open>__proto__\<close>;
  \<^item> an integer has magnitude at most \<open>2^53\<close> and an array fewer than \<open>2^32\<close> elements,
    as every JavaScript array has.

  Everything else is free: a property value, an \<^verbatim>\<open>items\<close> or a member of \<^verbatim>\<open>properties\<close>
  may be \<^verbatim>\<open>null\<close>, a number, a string or an array; \<^verbatim>\<open>properties\<close> need not be an
  object; an enum value need not be a string. At the root, \<^verbatim>\<open>required\<close> is absent,
  falsy, an array or a string (\<open>okRequired\<close>).
\<close>

fun okList :: "json option \<Rightarrow> bool" where
  "okList (Some (JArr xs)) = (JNull \<notin> set xs)"
| "okList v = (\<not> truthy v)"

fun okRequired :: "json option \<Rightarrow> bool" where
  "okRequired (Some (JArr xs)) = True"
| "okRequired (Some (JStr s)) = True"
| "okRequired v = (\<not> truthy v)"

fun tame :: "json \<Rightarrow> bool" where
  "tame (JNum n) = (\<bar>n\<bar> \<le> 2 ^ 53)"
| "tame (JArr xs) = (length xs < 2 ^ 32 \<and> (\<forall>x \<in> set xs. tame x))"
| "tame (JObj es) =
     (asc ''toString'' \<notin> fst ` set es \<and> asc ''__proto__'' \<notin> fst ` set es
      \<and> map_of es (asc ''const'') \<noteq> Some JNull
      \<and> map_of es (asc ''default'') \<noteq> Some JNull
      \<and> okList (map_of es (asc ''enum''))
      \<and> okList (map_of es (asc ''oneOf''))
      \<and> okList (map_of es (asc ''anyOf''))
      \<and> okList (map_of es (asc ''allOf''))
      \<and> (case map_of es (asc ''pattern'') of Some (JObj ps) \<Rightarrow> False | _ \<Rightarrow> True)
      \<and> (\<forall>(k, v) \<in> set es. tame v))"
| "tame v = True"

lemma tame_printable: "tame v \<Longrightarrow> \<exists>s. ToString v = Inr s"
proof (induction v rule: ToString.induct)
  case (5 xs)
  have "\<exists>ss. mapM (\<lambda>x. if x = JNull then Inr [] else ToString x) xs = Inr ss"
  proof (rule mapM_ok)
    fix x assume "x \<in> set xs"
    then show "\<exists>y. (if x = JNull then Inr [] else ToString x) = Inr y"
      using 5 by (cases "x = JNull") auto
  qed
  then show ?case by auto
qed auto

lemma tame_field: "tame p \<Longrightarrow> field p k = Some v \<Longrightarrow> tame v"
  by (cases p) (auto dest!: map_of_SomeD)

lemma tame_elem: "tame (JArr xs) \<Longrightarrow> x \<in> set xs \<Longrightarrow> tame x"
  by simp

lemma tame_entries: "tame p \<Longrightarrow> (k, v) \<in> set (entries p) \<Longrightarrow> tame v"
proof (cases p)
  case (JStr s)
  assume "(k, v) \<in> set (entries p)"
  then have "v \<in> set (map (\<lambda>c. JStr [c]) s)" using JStr by (auto dest: set_zip_rightD)
  then show ?thesis by auto
qed (auto dest: set_zip_rightD)

lemma digits_range: "c \<in> set (digits n) \<Longrightarrow> 48 \<le> c \<and> c \<le> 57"
proof (induction n rule: digits.induct)
  case (1 n)
  show ?case
  proof (cases "n < 10")
    case True
    with 1 show ?thesis by (simp add: digits.simps [of n])
  next
    case False
    with 1 show ?thesis by (auto simp: digits.simps [of n])
  qed
qed

lemma digits_not_proto: "digits n \<noteq> asc ''__proto__''"
proof
  assume "digits n = asc ''__proto__''"
  then have "95 \<in> set (digits n)" by (simp add: asc_def)
  then show False using digits_range [of 95 n] by simp
qed

lemma tame_no_proto: "tame p \<Longrightarrow> asc ''__proto__'' \<notin> fst ` set (entries p)"
proof (cases p)
  case (JArr xs)
  have "asc ''__proto__'' \<notin> set (map digits [0..<length xs])"
    using digits_not_proto [THEN not_sym] by (auto simp del: upt_Suc)
  then show ?thesis using JArr by (auto dest: set_zip_leftD)
next
  case (JStr s)
  have "asc ''__proto__'' \<notin> set (map digits [0..<length s])"
    using digits_not_proto [THEN not_sym] by (auto simp del: upt_Suc)
  then show ?thesis using JStr by (auto dest: set_zip_leftD)
qed auto

lemma tame_assign:
  assumes "tame src" and "\<forall>v \<in> snd ` set t. tame v"
  shows "\<exists>m. assign t src = Inr m \<and> (\<forall>v \<in> snd ` set m. tame v)"
proof -
  from tame_no_proto [OF assms(1)] obtain m where m: "assign t src = Inr m"
    by (auto simp: assign_def)
  have "\<forall>v \<in> snd ` set (entries src). tame v"
    using tame_entries [OF assms(1)] by auto
  with snd_assign [OF m] assms(2) have "\<forall>v \<in> snd ` set m. tame v" by blast
  with m show ?thesis by blast
qed

lemma tame_mergeLoop:
  assumes "JNull \<notin> set ms" and "\<forall>x \<in> set ms. tame x" and "\<forall>v \<in> snd ` set acc. tame v"
  shows "\<exists>m. mergeLoop acc ms = Inr m \<and> (\<forall>v \<in> snd ` set m. tame v)"
  using assms
proof (induction ms arbitrary: acc)
  case Nil
  then show ?case by simp
next
  case (Cons x ms)
  show ?case
  proof (cases "truthy (field x (asc ''properties''))")
    case True
    then obtain ps where ps: "field x (asc ''properties'') = Some ps"
      by (cases "field x (asc ''properties'')") auto
    have "tame ps" using Cons.prems(2) ps by (auto dest: tame_field)
    from tame_assign [OF this Cons.prems(3)] obtain acc' where
      a: "assign acc ps = Inr acc'" and t: "\<forall>v \<in> snd ` set acc'. tame v" by blast
    from Cons.IH [OF _ _ t] Cons.prems obtain m where
      "mergeLoop acc' ms = Inr m" "\<forall>v \<in> snd ` set m. tame v" by auto
    then show ?thesis using True ps a Cons.prems(1) by auto
  next
    case False
    from Cons.IH [OF _ _ Cons.prems(3)] Cons.prems obtain m where
      "mergeLoop acc ms = Inr m" "\<forall>v \<in> snd ` set m. tame v" by auto
    then show ?thesis using False Cons.prems(1) by auto
  qed
qed

lemma tame_merge:
  assumes "tame p" and "field p k = Some (JArr ms)" and "okList (field p k)"
  shows "\<exists>m. mergeAllOfProperties ms = Inr m \<and> (\<forall>v \<in> snd ` set m. tame v)"
proof -
  have "tame (JArr ms)" using assms(1,2) by (rule tame_field)
  then have "\<forall>x \<in> set ms. tame x" by simp
  moreover have "JNull \<notin> set ms" using assms(2,3) by simp
  ultimately show ?thesis
    using tame_mergeLoop [of ms "[]"] by (simp add: mergeAllOfProperties_def)
qed




lemma tame_facts:
  assumes "tame p"
  shows "field p (asc ''const'') \<noteq> Some JNull"
    and "field p (asc ''default'') \<noteq> Some JNull"
    and "okList (field p (asc ''enum''))"
    and "okList (field p (asc ''oneOf''))"
    and "okList (field p (asc ''anyOf''))"
    and "okList (field p (asc ''allOf''))"
    and "field p (asc ''pattern'') \<noteq> Some (JObj ps)"
  using assms by (cases p; auto)+

lemma tame_the_field: "tame p \<Longrightarrow> field p k \<noteq> None \<Longrightarrow> tame (the (field p k))"
  by (auto dest: tame_field)

lemma printable_truthyOr:
  "tame p \<Longrightarrow> tame d \<Longrightarrow> \<exists>s. ToString (truthyOr (field p k) d) = Inr s"
  by (cases "field p k") (auto intro: tame_printable dest: tame_field)

lemma ok_arrayConstraints: "tame p \<Longrightarrow> \<exists>c. arrayConstraints p = Inr c"
proof -
  assume t: "tame p"
  obtain mn where mn: "ToString (truthyOr (field p (asc ''minItems'')) (JNum 0)) = Inr mn"
    using printable_truthyOr [OF t, of "JNum 0"] by auto
  obtain mx where mx: "ToString (truthyOr (field p (asc ''maxItems'')) (JStr [8734])) = Inr mx"
    using printable_truthyOr [OF t, of "JStr [8734]"] by auto
  show ?thesis by (simp add: arrayConstraints_def mn mx)
qed

lemma ok_toStringMethod: "tame v \<Longrightarrow> v \<noteq> JNull \<Longrightarrow> \<exists>s. toStringMethod v = Inr s"
  by (simp add: toStringMethod_def tame_printable)

lemma ok_enumValues:
  assumes "JNull \<notin> set vs" and "\<forall>x \<in> set vs. tame x"
  shows "\<exists>s. enumValues vs = Inr s"
proof -
  have "\<exists>ss. mapM (\<lambda>v. bindE (toStringMethod v) (\<lambda>s. Inr (escapeXml s))) vs = Inr ss"
  proof (rule mapM_ok)
    fix x assume "x \<in> set vs"
    then obtain s where "toStringMethod x = Inr s"
      using assms ok_toStringMethod [of x] by auto
    then show "\<exists>y. bindE (toStringMethod x) (\<lambda>s. Inr (escapeXml s)) = Inr y" by simp
  qed
  then show ?thesis by (auto simp: enumValues_def)
qed

lemma ok_constraint: "tame p \<Longrightarrow> \<exists>c. constraint m (field p k) = Inr c"
proof (cases "field p k")
  case None
  then show ?thesis by (simp add: constraint_def)
next
  case (Some v)
  assume "tame p"
  then obtain s where "ToString v = Inr s" using Some tame_printable tame_field by blast
  then show ?thesis using Some by (simp add: constraint_def)
qed

lemma ok_patternConstraint:
  assumes "tame p"
  shows "\<exists>c. patternConstraint (field p (asc ''pattern'')) = Inr c"
proof (cases "truthy (field p (asc ''pattern''))")
  case False
  then show ?thesis by (simp add: patternConstraint_def)
next
  case True
  then obtain pat where pat: "field p (asc ''pattern'') = Some pat"
    by (cases "field p (asc ''pattern'')") auto
  have tp: "tame pat" using assms pat by (rule tame_field)
  have no: "\<And>ps. pat \<noteq> JObj ps" using tame_facts(7) [OF assms] pat by auto
  show ?thesis
  proof (cases pat)
    case (JStr s)
    then show ?thesis using pat True
      by (auto simp: patternConstraint_def jsGreater_def)
  next
    case (JArr xs)
    have "tame (JArr (take 10 xs))" using tp JArr by (auto dest: in_set_takeD)
    then obtain s1 where s1: "ToString (JArr (take 10 xs)) = Inr s1"
      using tame_printable by blast
    obtain s2 where s2: "ToString (JArr xs) = Inr s2"
      using tame_printable tp JArr by blast
    show ?thesis using pat JArr s1 s2
      by (auto simp: patternConstraint_def jsGreater_def simp del: ToString.simps)
  next
    case (JObj ps)
    then show ?thesis using no by simp
  next
    case (JNum n)
    then show ?thesis using pat True tp
      by (auto simp: patternConstraint_def jsGreater_def)
  next
    case (JBool b)
    then show ?thesis using pat True
      by (auto simp: patternConstraint_def jsGreater_def)
  next
    case JNull
    then show ?thesis using pat True by simp
  qed
qed


lemma ok_default_method:
  assumes "tame p"
  shows "field p (asc ''default'') = Some d \<Longrightarrow> \<exists>s. toStringMethod d = Inr s"
  using assms tame_facts(2) [OF assms] ok_toStringMethod [of d] tame_field [of p _ d] by auto

lemma ok_default_template:
  assumes "tame p"
  shows "field p (asc ''default'') = Some d \<Longrightarrow> \<exists>s. ToString d = Inr s"
  using assms tame_printable [of d] tame_field [of p _ d] by auto

lemma ok_basicType:
  assumes t: "tame p"
  shows "\<exists>s. basicType p = Inr s"
proof -
  obtain c1 where c1: "constraint [8805] (field p (asc ''minLength'')) = Inr c1"
    using ok_constraint [OF t] by blast
  obtain c2 where c2: "constraint [8804] (field p (asc ''maxLength'')) = Inr c2"
    using ok_constraint [OF t] by blast
  obtain c3 where c3: "patternConstraint (field p (asc ''pattern'')) = Inr c3"
    using ok_patternConstraint [OF t] by blast
  obtain d1 where d1: "constraint [8805] (field p (asc ''minimum'')) = Inr d1"
    using ok_constraint [OF t] by blast
  obtain d2 where d2: "constraint [8804] (field p (asc ''maximum'')) = Inr d2"
    using ok_constraint [OF t] by blast
  obtain d3 where d3: "constraint [215] (field p (asc ''multipleOf'')) = Inr d3"
    using ok_constraint [OF t] by blast
  have ty: "truthy (field p (asc ''type'')) \<Longrightarrow> \<exists>s. ToString (the (field p (asc ''type''))) = Inr s"
    using t tame_printable by (cases "field p (asc ''type'')") (auto dest: tame_field)
  show ?thesis
  proof (cases "field p (asc ''default'')")
    case None
    then show ?thesis using c1 c2 c3 d1 d2 d3 ty by (auto simp: basicType_def Let_def)
  next
    case (Some d)
    obtain s1 where s1: "toStringMethod d = Inr s1" using ok_default_method [OF t Some] by blast
    obtain s2 where s2: "ToString d = Inr s2" using ok_default_template [OF t Some] by blast
    show ?thesis using Some c1 c2 c3 d1 d2 d3 s1 s2 ty by (auto simp: basicType_def Let_def)
  qed
qed

lemma ok_unionSpecial:
  assumes t: "tame p" and pn: "p \<noteq> JNull" and r: "unionSpecial p = Some r"
  shows "\<exists>s. r = Inr s"
proof (cases "truthy (field p (asc ''enum''))")
  case True
  with tame_facts(3) [OF t] obtain vs where vs: "field p (asc ''enum'') = Some (JArr vs)"
    by (cases "field p (asc ''enum'')" rule: okList.cases) auto
  have tv: "tame (JArr vs)" using t vs by (rule tame_field)
  have nv: "JNull \<notin> set vs" using tame_facts(3) [OF t] vs by simp
  obtain e where e: "enumValues vs = Inr e" using ok_enumValues [OF nv] tv by auto
  have "int (length vs) \<le> 2 ^ 53"
  proof -
    have "length vs < 2 ^ 32" using tv by simp
    then have "int (length vs) < 2 ^ 32" by (metis of_nat_less_iff of_nat_numeral of_nat_power)
    then show ?thesis by simp
  qed
  then obtain n where n: "ToString (JNum (int (length vs))) = Inr n" by simp
  show ?thesis using r pn True vs e n
    by (auto simp: unionSpecial_def jsLessEq_def Let_def simp del: ToString.simps split: if_splits)
next
  case False
  obtain d1 where d1: "constraint [8805] (field p (asc ''minimum'')) = Inr d1"
    using ok_constraint [OF t] by blast
  obtain d2 where d2: "constraint [8804] (field p (asc ''maximum'')) = Inr d2"
    using ok_constraint [OF t] by blast
  show ?thesis using r pn False d1 d2
    by (auto simp: unionSpecial_def Let_def split: if_splits)
qed

lemma getCompactType_not_object: "\<not> isObject v \<Longrightarrow> getCompactType v = Inr (asc ''any'')"
  by (simp add: getCompactType.simps [of v])

lemma getCompactType_array_value: "getCompactType (JArr xs) = Inr (asc ''any'')"
  by (simp add: getCompactType.simps [of "JArr xs"] basicType_def)

lemma tame_total: "tame v \<Longrightarrow> \<exists>s. getCompactType v = Inr s"
proof (induction "size v" arbitrary: v rule: less_induct)
  case less
  note IH = less.hyps and t = less.prems
  have sub: "\<And>w. size w < size v \<Longrightarrow> tame w \<Longrightarrow> \<exists>s. getCompactType w = Inr s"
    using IH by blast
  have many: "\<And>ws. (\<And>w. w \<in> set ws \<Longrightarrow> size w < size v \<and> tame w) \<Longrightarrow>
      \<exists>ts. mapM getCompactType ws = Inr ts"
    by (rule mapM_ok) (use sub in blast)
  have nested: "\<And>es. (\<And>k w. (k, w) \<in> set es \<Longrightarrow> size w < size v \<and> tame w) \<Longrightarrow>
      \<exists>ts. mapM (\<lambda>(k, w). bindE (getCompactType w) (\<lambda>t. Inr (escapeXml k @ asc '':'' @ t))) es = Inr ts"
  proof (rule mapM_ok)
    fix es :: "(jsstring \<times> json) list" and x
    assume h: "\<And>k w. (k, w) \<in> set es \<Longrightarrow> size w < size v \<and> tame w" and x: "x \<in> set es"
    obtain k w where kw: "x = (k, w)" by (cases x)
    with h x obtain s where "getCompactType w = Inr s" using sub by blast
    then show "\<exists>y. (case x of (k, w) \<Rightarrow> bindE (getCompactType w) (\<lambda>t. Inr (escapeXml k @ asc '':'' @ t))) = Inr y"
      using kw by simp
  qed
  show ?case
  proof (cases "isObject v")
    case False
    then show ?thesis by (simp add: getCompactType_not_object)
  next
    case obj: True
    show ?thesis
    proof (cases "field v (asc ''type'') = Some (JStr (asc ''array''))")
      case True
      obtain c where c: "arrayConstraints v = Inr c" using ok_arrayConstraints [OF t] by blast
      have "\<exists>a. (if truthy (field v (asc ''items'')) then
            (if asArray (field v (asc ''items'')) \<noteq> None then
               bindE (mapM getCompactType (the (asArray (field v (asc ''items'')))))
                 (\<lambda>itemTypes. Inr (asc ''tuple['' @ join (asc '','') itemTypes @ asc '']''))
             else
               bindE (getCompactType (the (field v (asc ''items''))))
                 (\<lambda>itemType. Inr (asc ''array['' @ itemType @ asc '']'')))
          else Inr (asc ''array[any]'')) = Inr a"
      proof (cases "truthy (field v (asc ''items''))")
        case False
        then show ?thesis by simp
      next
        case items: True
        show ?thesis
        proof (cases "asArray (field v (asc ''items''))")
          case None
          have "size (the (field v (asc ''items''))) < size v" using items by (rule size_the_field)
          moreover have "tame (the (field v (asc ''items'')))"
            using t items by (cases "field v (asc ''items'')") (auto dest: tame_field)
          ultimately obtain s where "getCompactType (the (field v (asc ''items''))) = Inr s"
            using sub by blast
          then show ?thesis using items None by simp
        next
          case (Some xs)
          then have f: "field v (asc ''items'') = Some (JArr xs)" by (simp add: asArray_Some)
          have "tame (JArr xs)" using t f by (rule tame_field)
          then have "\<And>w. w \<in> set xs \<Longrightarrow> size w < size v \<and> tame w"
            using size_asArray [OF Some] by simp
          then obtain ts where "mapM getCompactType xs = Inr ts" using many by blast
          then show ?thesis using items Some by simp
        qed
      qed
      then show ?thesis using obj True c by (auto simp: getCompactType.simps [of v])
    next
      case notarr: False
      show ?thesis
      proof (cases "field v (asc ''const'') \<noteq> None")
        case True
        then obtain cv where cv: "field v (asc ''const'') = Some cv" by auto
        have "cv \<noteq> JNull" using tame_facts(1) [OF t] cv by auto
        moreover have "tame cv" using t cv by (rule tame_field)
        ultimately obtain s where "toStringMethod cv = Inr s" using ok_toStringMethod by blast
        then show ?thesis using obj notarr cv by (simp add: getCompactType.simps [of v])
      next
        case noconst: False
        show ?thesis
        proof (cases "asArray (field v (asc ''enum''))")
          case (Some vs)
          then have f: "field v (asc ''enum'') = Some (JArr vs)" by (simp add: asArray_Some)
          have "JNull \<notin> set vs" using tame_facts(3) [OF t] f by simp
          moreover have "tame (JArr vs)" using t f by (rule tame_field)
          ultimately obtain s where "enumValues vs = Inr s" using ok_enumValues [of vs] by auto
          then show ?thesis using obj notarr noconst Some
            by (simp add: getCompactType.simps [of v])
        next
          case noenum: None
          show ?thesis
          proof (cases "asArray (field v (asc ''allOf''))")
            case (Some ms)
            then have f: "field v (asc ''allOf'') = Some (JArr ms)" by (simp add: asArray_Some)
            from tame_merge [OF t f tame_facts(6) [OF t]] obtain m where
              m: "mergeAllOfProperties ms = Inr m" and tm: "\<forall>w \<in> snd ` set m. tame w" by blast
            have "\<And>k w. (k, w) \<in> set m \<Longrightarrow> size w < size v \<and> tame w"
            proof
              fix k w assume kw: "(k, w) \<in> set m"
              show "size w < size v"
                using size_the_merged [of v "asc ''allOf''" m k w] Some m kw by simp
              show "tame w" using tm kw by force
            qed
            then have "\<exists>ts. mapM (\<lambda>(k, w). bindE (getCompactType w)
                (\<lambda>t. Inr (escapeXml k @ asc '':'' @ t))) m = Inr ts"
              by (intro nested) blast+
            then obtain ts where
              "mapM (\<lambda>(k, w). bindE (getCompactType w) (\<lambda>t. Inr (escapeXml k @ asc '':'' @ t))) m = Inr ts"
              by blast
            then show ?thesis using obj notarr noconst noenum Some m
              by (simp add: getCompactType.simps [of v])
          next
            case noall: None
            show ?thesis
            proof (cases "field v (asc ''type'') = Some (JStr (asc ''object''))")
              case True
              show ?thesis
              proof (cases "truthy (field v (asc ''properties''))
                  \<and> length (entries (the (field v (asc ''properties'')))) \<le> 2")
                case False
                then show ?thesis using obj notarr noconst noenum noall True
                  by (auto simp: getCompactType.simps [of v])
              next
                case small: True
                have "\<And>k w. (k, w) \<in> set (entries (the (field v (asc ''properties''))))
                    \<Longrightarrow> size w < size v \<and> tame w"
                proof
                  fix k w assume kw: "(k, w) \<in> set (entries (the (field v (asc ''properties''))))"
                  show "size w < size v" using small kw by (auto intro: size_the_entries)
                  have "tame (the (field v (asc ''properties'')))"
                    using t small by (cases "field v (asc ''properties'')") (auto dest: tame_field)
                  then show "tame w" using kw by (rule tame_entries)
                qed
                then have "\<exists>ts. mapM (\<lambda>(k, w). bindE (getCompactType w)
                    (\<lambda>t. Inr (escapeXml k @ asc '':'' @ t)))
                     (entries (the (field v (asc ''properties'')))) = Inr ts"
                  by (intro nested) blast+
                then obtain ts where
                  "mapM (\<lambda>(k, w). bindE (getCompactType w) (\<lambda>t. Inr (escapeXml k @ asc '':'' @ t)))
                     (entries (the (field v (asc ''properties'')))) = Inr ts"
                  by blast
                then show ?thesis using obj notarr noconst noenum noall True small
                  by (simp add: getCompactType.simps [of v])
              qed
            next
              case noobj: False
              show ?thesis
              proof (cases "truthy (field v (asc ''oneOf'')) \<or> truthy (field v (asc ''anyOf''))")
                case False
                obtain s where "basicType v = Inr s" using ok_basicType [OF t] by blast
                then show ?thesis using obj notarr noconst noenum noall noobj False
                  by (simp add: getCompactType.simps [of v])
              next
                case union: True
                define u where "u = (if truthy (field v (asc ''oneOf'')) then field v (asc ''oneOf'')
                          else field v (asc ''anyOf''))"
                have tu: "truthy u" using union by (auto simp: u_def)
                have ok: "okList u" using tame_facts(4,5) [OF t] by (auto simp: u_def)
                from tu ok obtain ps where ps: "u = Some (JArr ps)"
                  by (cases u rule: okList.cases) auto
                have nn: "JNull \<notin> set ps" using ok ps by simp
                obtain k where k: "field v k = Some (JArr ps)"
                  using ps by (auto simp: u_def split: if_splits)
                have tps: "tame (JArr ps)" using t k by (rule tame_field)
                have "\<exists>parts. mapM (\<lambda>p. case unionSpecial p of Some r \<Rightarrow> r | None \<Rightarrow> getCompactType p) ps
                        = Inr parts"
                proof (rule mapM_ok)
                  fix p assume p: "p \<in> set ps"
                  have tp: "tame p" using tps p by simp
                  have pn: "p \<noteq> JNull" using nn p by auto
                  have sz: "size p < size v" using size_asArray [of v k ps p] k p by simp
                  show "\<exists>y. (case unionSpecial p of Some r \<Rightarrow> r | None \<Rightarrow> getCompactType p) = Inr y"
                  proof (cases "unionSpecial p")
                    case None
                    then show ?thesis using sub [OF sz tp] by simp
                  next
                    case (Some r)
                    then show ?thesis using ok_unionSpecial [OF tp pn Some] by simp
                  qed
                qed
                then obtain parts where
                  "mapM (\<lambda>p. case unionSpecial p of Some r \<Rightarrow> r | None \<Rightarrow> getCompactType p) ps = Inr parts"
                  by blast
                then show ?thesis using obj notarr noconst noenum noall noobj union ps
                  by (simp add: getCompactType.simps [of v] u_def [symmetric])
              qed
            qed
          qed
        qed
      qed
    qed
  qed
qed


lemma ok_requiredIncludes: "okRequired required \<Longrightarrow> \<exists>b. requiredIncludes required key = Inr b"
  by (cases required rule: okRequired.cases) (auto simp: requiredIncludes_def)

lemma ok_params:
  assumes req: "okRequired required" and es: "\<And>k w. (k, w) \<in> set es \<Longrightarrow> tame w"
  shows "\<exists>ps. mapM (param required) es = Inr ps"
proof (rule mapM_ok)
  fix x assume x: "x \<in> set es"
  obtain k w where kw: "x = (k, w)" by (cases x)
  obtain b where b: "requiredIncludes required k = Inr b"
    using ok_requiredIncludes [OF req] by blast
  obtain t where t: "getCompactType w = Inr t" using tame_total es x kw by blast
  show "\<exists>y. param required x = Inr y" by (simp add: param_def kw b t)
qed

lemma root_not_object: "\<not> isObject v \<Longrightarrow> jsonSchemaToXml (Some v) = Inr (asc ''<schema></schema>'')"
  by (simp add: jsonSchemaToXml_def)

lemma tame_root_total:
  assumes t: "tame v" and req: "okRequired (field v (asc ''required''))"
  shows "\<exists>s. jsonSchemaToXml (Some v) = Inr s"
proof (cases "isObject v")
  case False
  then show ?thesis by (simp add: root_not_object)
next
  case obj: True
  then have tv: "truthy (Some v)" by (cases v) auto
  show ?thesis
  proof (cases "field v (asc ''type'') = Some (JStr (asc ''array'')) \<and> truthy (field v (asc ''items''))")
    case True
    then have items: "truthy (field v (asc ''items''))" by simp
    show ?thesis
    proof (cases "asArray (field v (asc ''items''))")
      case None
      have "tame (the (field v (asc ''items'')))"
        using t items by (cases "field v (asc ''items'')") (auto dest: tame_field)
      then obtain s where "getCompactType (the (field v (asc ''items''))) = Inr s"
        using tame_total by blast
      then show ?thesis using True None obj tv by (simp add: jsonSchemaToXml_def)
    next
      case (Some xs)
      then have "field v (asc ''items'') = Some (JArr xs)" by (simp add: asArray_Some)
      then have "tame (JArr xs)" using t tame_field by blast
      then have "\<exists>ts. mapM getCompactType xs = Inr ts"
        by (intro mapM_ok tame_total) simp
      then show ?thesis using True Some obj tv by (auto simp: jsonSchemaToXml_def)
    qed
  next
    case noarr: False
    have allof: "\<exists>s. rootAllOf v = Some (Inr s) \<or> rootAllOf v = None"
    proof (cases "asArray (field v (asc ''allOf''))")
      case None
      then show ?thesis by (simp add: rootAllOf_def)
    next
      case (Some ms)
      then have f: "field v (asc ''allOf'') = Some (JArr ms)" by (simp add: asArray_Some)
      from tame_merge [OF t f tame_facts(6) [OF t]] obtain m where
        m: "mergeAllOfProperties ms = Inr m" and tm: "\<forall>w \<in> snd ` set m. tame w" by blast
      have "\<And>k w. (k, w) \<in> set m \<Longrightarrow> tame w" using tm by force
      then have "\<exists>ps. mapM (param (field v (asc ''required''))) m = Inr ps"
        by (intro ok_params req) blast
      then obtain ps where
        "mapM (param (field v (asc ''required''))) m = Inr ps" by blast
      then show ?thesis using Some m by (simp add: rootAllOf_def)
    qed
    show ?thesis
    proof (cases "rootAllOf v")
      case (Some r)
      then show ?thesis using allof noarr obj tv by (auto simp: jsonSchemaToXml_def)
    next
      case None
      show ?thesis
      proof (cases "truthy (field v (asc ''properties''))")
        case False
        then show ?thesis using None noarr obj tv by (auto simp: jsonSchemaToXml_def)
      next
        case True
        have "tame (the (field v (asc ''properties'')))"
          using t True by (cases "field v (asc ''properties'')") (auto dest: tame_field)
        then have "\<And>k w. (k, w) \<in> set (entries (the (field v (asc ''properties'')))) \<Longrightarrow> tame w"
          by (rule tame_entries)
        then have "\<exists>ps. mapM (param (field v (asc ''required'')))
            (entries (the (field v (asc ''properties'')))) = Inr ps"
          by (intro ok_params req) blast
        then obtain ps where
          "mapM (param (field v (asc ''required''))) (entries (the (field v (asc ''properties'')))) = Inr ps"
          by blast
        then show ?thesis using None noarr obj tv by (auto simp: jsonSchemaToXml_def)
      qed
    qed
  qed
qed

text \<open>
  Where the encoder returns. \<^verbatim>\<open>jsonSchemaToXml\<close> returns
  \<^verbatim>\<open><schema></schema>\<close> for an absent schema and for every schema that is not an object
  or an array (\<^verbatim>\<open>null\<close> among them), and \<^verbatim>\<open>getCompactType\<close> returns \<^verbatim>\<open>any\<close> for
  every value that is not an object or an array. On every tame value
  \<^verbatim>\<open>getCompactType\<close> returns a string, and on every tame schema whose \<^verbatim>\<open>required\<close>
  is absent, falsy, an array or a string \<^verbatim>\<open>jsonSchemaToXml\<close> returns a string.
  The condition is sufficient, not necessary.
\<close>

theorem returns_on_tame_inputs:
  "jsonSchemaToXml None = Inr (asc ''<schema></schema>'')
   \<and> (\<forall>v. \<not> isObject v \<longrightarrow>
          jsonSchemaToXml (Some v) = Inr (asc ''<schema></schema>'')
          \<and> getCompactType v = Inr (asc ''any''))
   \<and> (\<forall>v. tame v \<longrightarrow> (\<exists>s. getCompactType v = Inr s))
   \<and> (\<forall>v. tame v \<and> okRequired (field v (asc ''required'')) \<longrightarrow>
          (\<exists>s. jsonSchemaToXml (Some v) = Inr s))"
proof (intro conjI allI impI)
  show "jsonSchemaToXml None = Inr (asc ''<schema></schema>'')"
    by (simp add: jsonSchemaToXml_def)
next
  fix v assume "\<not> isObject v"
  then show "jsonSchemaToXml (Some v) = Inr (asc ''<schema></schema>'')"
    by (rule root_not_object)
next
  fix v assume "\<not> isObject v"
  then show "getCompactType v = Inr (asc ''any'')"
    by (rule getCompactType_not_object)
next
  fix v assume "tame v"
  then show "\<exists>s. getCompactType v = Inr s" by (rule tame_total)
next
  fix v assume "tame v \<and> okRequired (field v (asc ''required''))"
  then show "\<exists>s. jsonSchemaToXml (Some v) = Inr s" by (simp add: tame_root_total)
qed


theorem returns_on_tame_inputs_example:
  "(\<exists>s. jsonSchemaToXml (Some (JObj [(asc ''properties'', JObj [(asc ''f'', JArr []),
        (asc ''g'', JNull), (asc ''h'', JObj [(asc ''enum'', JArr [JNum 1, JBool True])])])])) = Inr s)
   \<and> (\<exists>s. jsonSchemaToXml (Some (JObj [(asc ''properties'', JStr (asc ''x''))])) = Inr s)
   \<and> jsonSchemaToXml (Some (JObj [(asc ''properties'', JNull)])) = Inr (asc ''<schema></schema>'')
   \<and> getCompactType JNull = Inr (asc ''any'')"
proof -
  have 1: "tame (JObj [(asc ''properties'', JObj [(asc ''f'', JArr []),
        (asc ''g'', JNull), (asc ''h'', JObj [(asc ''enum'', JArr [JNum 1, JBool True])])])])"
    by (simp add: asc_def)
  have 2: "tame (JObj [(asc ''properties'', JStr (asc ''x''))])"
    by (simp add: asc_def)
  have 3: "okRequired (field (JObj [(asc ''properties'', JObj [(asc ''f'', JArr []),
        (asc ''g'', JNull), (asc ''h'', JObj [(asc ''enum'', JArr [JNum 1, JBool True])])])])
      (asc ''required''))"
    by (simp add: asc_def)
  have 4: "okRequired (field (JObj [(asc ''properties'', JStr (asc ''x''))]) (asc ''required''))"
    by (simp add: asc_def)
  have 5: "jsonSchemaToXml (Some (JObj [(asc ''properties'', JNull)])) = Inr (asc ''<schema></schema>'')"
    by (simp add: encoder_eval)
  have 6: "\<not> isObject JNull" by simp
  show ?thesis using returns_on_tame_inputs 1 2 3 4 5 6 by blast
qed


text \<open>
  Claim C1 (totality) does not hold of the code. The claim names a \<^verbatim>\<open>null\<close>
  \<^verbatim>\<open>const\<close> among the inputs on which a string is returned and nothing is raised.
  \<^verbatim>\<open>prop.const !== undefined\<close> (line 159) holds for \<^verbatim>\<open>null\<close>, and
  \<^verbatim>\<open>prop.const.toString()\<close> (line 160) then throws a \<^verbatim>\<open>TypeError\<close>, which nothing
  catches: \<^verbatim>\<open>getCompactType\<close> raises on the property \<^verbatim>\<open>{const: null}\<close>, and
  \<^verbatim>\<open>jsonSchemaToXml\<close> on a schema that has it.
\<close>

theorem null_const_raises:
  "getCompactType (JObj [(asc ''const'', JNull)]) = Inl TypeError
   \<and> jsonSchemaToXml (Some (JObj [(asc ''properties'',
        JObj [(asc ''x'', JObj [(asc ''const'', JNull)])])])) = Inl TypeError"
  by (simp add: encoder_eval)

theorem null_const_raises_witness:
  "isl (getCompactType (JObj [(asc ''const'', JNull)]))
   \<and> isl (jsonSchemaToXml (Some (JObj [(asc ''properties'',
        JObj [(asc ''x'', JObj [(asc ''const'', JNull)])])])))"
  using null_const_raises by simp



section \<open>The \<^verbatim>\<open>allOf\<close> merge at the root\<close>












section \<open>Numbers of the metrics\<close>

text \<open>
  A JavaScript number is an IEEE 754 double. The schema encoder only prints numbers, but
  the metrics divide and multiply them, and \<^verbatim>\<open>0.575 * 100\<close> is not \<^verbatim>\<open>57.5\<close> in doubles: the
  results of \<^verbatim>\<open>/\<close>, \<^verbatim>\<open>*\<close> and \<^verbatim>\<open>+\<close> are the exact results rounded to the nearest double,
  ties to the even significand. A finite double is a rational number, so the embedding
  computes on \<open>rat\<close> and rounds after each operation with \<open>toDouble\<close>. The model covers
  the normal range (no overflow, no subnormal numbers), which is where the metrics stay:
  their operands are token counts and quotients of token counts, below \<open>2 ^ 53\<close>.

  \<open>roundEven\<close> rounds a rational to the nearest integer, ties to even.
\<close>

definition roundEven :: "rat \<Rightarrow> int" where
  "roundEven x =
     (let f = \<lfloor>x\<rfloor>; d = x - of_int f
      in if d < 1 / 2 then f else if 1 / 2 < d then f + 1 else if even f then f else f + 1)"

text \<open>
  The binary exponent of a positive rational \<open>x\<close>, the \<open>e\<close> with \<open>2 ^ e \<le> x < 2 ^ (e + 1)\<close>:
  \<open>expUp\<close> halves down to \<open>[1, 2)\<close>, \<open>expDown\<close> doubles up to it.
\<close>

function expUp :: "rat \<Rightarrow> int" where
  "expUp x = (if x < 2 then 0 else 1 + expUp (x / 2))"
  by pat_completeness auto
termination
proof (relation "measure (\<lambda>x. nat \<lceil>x\<rceil>)", goal_cases)
  case 1
  show ?case by simp
next
  case (2 x)
  then have "x / 2 \<le> x - 1" by simp
  then have "\<lceil>x / 2\<rceil> \<le> \<lceil>x - 1\<rceil>" by (rule ceiling_mono)
  moreover have "0 < \<lceil>x\<rceil>" using 2 by (simp add: ceiling_less_iff less_ceiling_iff)
  ultimately show ?case by simp
qed

function expDown :: "rat \<Rightarrow> int" where
  "expDown x = (if x \<le> 0 \<or> 1 \<le> x then 0 else expDown (2 * x) - 1)"
  by pat_completeness auto
termination
proof (relation "measure (\<lambda>x. nat \<lceil>1 / x\<rceil>)", goal_cases)
  case 1
  show ?case by simp
next
  case (2 x)
  then have x: "0 < x" "x < 1" by simp_all
  then have big: "1 < 1 / x" by simp
  have pos: "0 < \<lceil>1 / x\<rceil>" using x by (simp add: less_ceiling_iff)
  have "\<lceil>1 / (2 * x)\<rceil> < \<lceil>1 / x\<rceil>"
  proof (cases "2 \<le> 1 / x")
    case True
    then have "1 / (2 * x) \<le> 1 / x - 1" using x by (simp add: field_simps)
    then have "\<lceil>1 / (2 * x)\<rceil> \<le> \<lceil>1 / x - 1\<rceil>" by (rule ceiling_mono)
    then show ?thesis by simp
  next
    case False
    then have "1 / (2 * x) \<le> 1" using x by (simp add: field_simps)
    then have a: "\<lceil>1 / (2 * x)\<rceil> \<le> \<lceil>1 :: rat\<rceil>" by (rule ceiling_mono)
    have b: "(1 :: int) < \<lceil>1 / x\<rceil>" using big by (subst less_ceiling_iff) simp
    from a have a': "\<lceil>1 / (2 * x)\<rceil> \<le> 1" by simp
    from a' b show ?thesis by linarith
  qed
  with pos show ?case by simp
qed

declare expUp.simps [simp del] expDown.simps [simp del]

definition binExp :: "rat \<Rightarrow> int" where
  "binExp x = (if 1 \<le> x then expUp x else expDown x)"

text \<open>
  Rounding to 53 significant bits: scale \<open>x\<close> so that its exponent is 52, round to an
  integer, scale back.
\<close>

definition toDouble :: "rat \<Rightarrow> rat" where
  "toDouble x =
     (if x = 0 then 0
      else let e = binExp \<bar>x\<bar> in
        if 52 \<le> e then of_int (roundEven (x / 2 ^ nat (e - 52))) * 2 ^ nat (e - 52)
        else of_int (roundEven (x * 2 ^ nat (52 - e))) / 2 ^ nat (52 - e))"

text \<open>
  \<^verbatim>\<open>Math.round\<close> rounds to the nearest integer, ties towards plus infinity, and
  \<^verbatim>\<open>Math.ceil\<close> rounds up; both are exact on a double.
\<close>

definition Math_round :: "rat \<Rightarrow> int" where
  "Math_round x = \<lfloor>x + 1 / 2\<rfloor>"

definition Math_ceil :: "rat \<Rightarrow> int" where
  "Math_ceil x = \<lceil>x\<rceil>"

text \<open>Rewrite rules that evaluate floors and ceilings of numeral fractions.\<close>

lemma floor_rat_numeral: "\<lfloor>numeral a / numeral b :: rat\<rfloor> = numeral a div numeral b"
  using floor_divide_of_int_eq [of "numeral a" "numeral b", where ?'a = rat] by simp

lemma floor_rat_neg_numeral: "\<lfloor>- (numeral a / numeral b) :: rat\<rfloor> = - numeral a div numeral b"
  using floor_divide_of_int_eq [of "- numeral a" "numeral b", where ?'a = rat] by simp

lemma floor_rat_one_numeral: "\<lfloor>1 / numeral b :: rat\<rfloor> = 1 div numeral b"
  using floor_divide_of_int_eq [of 1 "numeral b", where ?'a = rat] by simp

lemma ceiling_rat_one_numeral: "\<lceil>1 / numeral b :: rat\<rceil> = - (- 1 div numeral b)"
  using floor_divide_of_int_eq [of "- 1" "numeral b", where ?'a = rat] by (simp add: ceiling_def)

lemma ceiling_rat_numeral: "\<lceil>numeral a / numeral b :: rat\<rceil> = - (- numeral a div numeral b)"
  by (simp add: ceiling_def floor_rat_neg_numeral)

lemmas dbl = floor_rat_numeral floor_rat_neg_numeral ceiling_rat_numeral floor_rat_one_numeral
  ceiling_rat_one_numeral toDouble_def binExp_def expUp.simps expDown.simps roundEven_def Math_round_def Math_ceil_def
  Let_def

text \<open>
  Two values to compare with a JavaScript engine: the double nearest to \<^verbatim>\<open>1.3\<close>, and a
  reduction at a tie (\<^verbatim>\<open>Math.round((23 / 40) * 100)\<close> is 57, where exact arithmetic gives
  57.5 and rounds to 58).
\<close>

lemma toDouble_thirteen_tenths: "toDouble (13 / 10) = 5854679515581645 / 4503599627370496"
  by (simp add: dbl)

lemma round_below_a_tie: "Math_round (toDouble (toDouble (23 / 40) * 100)) = 57"
  by (simp add: dbl)

section \<open>The encoder and the metrics of src/unnamed/part_004\<close>

text \<open>
  \<^verbatim>\<open>src/unnamed/part_004\<close> is the revision of the file that holds the metrics. Its
  encoder is an earlier state of the one above: no \<^verbatim>\<open>const\<close>, \<^verbatim>\<open>allOf\<close>, tuples or
  constraints, and enum values go through \<^verbatim>\<open>escapeXml\<close> directly. \<^verbatim>\<open>escapeXml\<close>,
  \<^verbatim>\<open>ENUM_DISPLAY_THRESHOLD\<close> and the format names are the same text as in
  \<^verbatim>\<open>part_002\<close> and are shared.

  \<^verbatim>\<open>prop.enum.map(escapeXml)\<close> (line 101): \<^verbatim>\<open>escapeXml\<close> calls \<^verbatim>\<open>text.replace\<close>, which
  only a string has.
\<close>

definition escapeXmlValue :: "json \<Rightarrow> error + jsstring" where
  "escapeXmlValue v = (case v of JStr s \<Rightarrow> Inr (escapeXml s) | _ \<Rightarrow> Inl TypeError)"

text \<open>
  The union step (lines 119 to 127): \<^verbatim>\<open>unionArray.map((p) => p.type)\<close> throws unless the
  value is an array without \<^verbatim>\<open>null\<close> elements; the truthy types are joined by \<^verbatim>\<open>|\<close>.
\<close>

definition unionTypes :: "json \<Rightarrow> error + jsstring" where
  "unionTypes unionArray =
     (case unionArray of
        JArr ps \<Rightarrow>
          bindE (mapM (\<lambda>p. if p = JNull then Inl TypeError else Inr (field p (asc ''type''))) ps) (\<lambda>ts.
          let types = filter truthy ts in
          if length types > 0
          then bindE (mapM ToStringU types) (\<lambda>ss. Inr (join (asc ''|'') ss))
          else Inr (asc ''union''))
      | _ \<Rightarrow> Inl TypeError)"

text \<open>The final \<^verbatim>\<open>switch\<close> (lines 130 to 149).\<close>

definition basicType_004 :: "json \<Rightarrow> error + jsstring" where
  "basicType_004 prop =
     (let type = field prop (asc ''type''); format = field prop (asc ''format'') in
      if type = Some (JStr (asc ''string'')) then Inr (stringType format)
      else if type = Some (JStr (asc ''number'')) \<or> type = Some (JStr (asc ''integer''))
        then Inr (asc ''number'')
      else if type = Some (JStr (asc ''boolean'')) then Inr (asc ''boolean'')
      else if type = Some (JStr (asc ''null'')) then Inr (asc ''null'')
      else if truthy type then ToString (the type)
      else Inr (asc ''any''))"

text \<open>\<^verbatim>\<open>getCompactType\<close> (lines 83 to 150).\<close>

function getCompactType_004 :: "json \<Rightarrow> error + jsstring" where
  "getCompactType_004 prop =
    (if \<not> isObject prop then Inr (asc ''any'')
     else if field prop (asc ''type'') = Some (JStr (asc ''array'')) then
       (if truthy (field prop (asc ''items'')) then
          bindE (getCompactType_004 (the (field prop (asc ''items''))))
            (\<lambda>itemType. Inr (asc ''array['' @ itemType @ asc '']''))
        else Inr (asc ''array[any]''))
     else if asArray (field prop (asc ''enum'')) \<noteq> None then
       (if length (the (asArray (field prop (asc ''enum'')))) \<le> ENUM_DISPLAY_THRESHOLD then
          bindE (mapM escapeXmlValue (the (asArray (field prop (asc ''enum'')))))
            (\<lambda>safeEnumValues. Inr (asc ''enum('' @ join (asc ''|'') safeEnumValues @ asc '')''))
        else Inr (asc ''enum''))
     else if field prop (asc ''type'') = Some (JStr (asc ''object'')) then
       (if truthy (field prop (asc ''properties''))
           \<and> length (entries (the (field prop (asc ''properties'')))) \<le> 2 then
          bindE (mapM (\<lambda>(k, v). bindE (getCompactType_004 v) (\<lambda>t. Inr (escapeXml k @ asc '':'' @ t)))
                   (entries (the (field prop (asc ''properties'')))))
            (\<lambda>nestedProps. Inr (asc ''object{'' @ join (asc '','') nestedProps @ asc ''}''))
        else Inr (asc ''object''))
     else if truthy (field prop (asc ''oneOf'')) \<or> truthy (field prop (asc ''anyOf'')) then
       unionTypes (if truthy (field prop (asc ''oneOf'')) then the (field prop (asc ''oneOf''))
                   else the (field prop (asc ''anyOf'')))
     else basicType_004 prop)"
  by pat_completeness auto

termination
proof (relation "measure size", goal_cases)
  case 1
  show ?case by simp
next
  case (2 pr)
  then show ?case by (simp add: size_the_field)
next
  case (3 pr kv k v)
  then show ?case using size_the_entries [of pr "asc ''properties''" k v] by simp
qed

declare getCompactType_004.simps [simp del]

text \<open>\<^verbatim>\<open>jsonSchemaToXml\<close> (lines 51 to 76) and the callback of its \<^verbatim>\<open>map\<close>.\<close>

definition param_004 :: "json option \<Rightarrow> jsstring \<times> json \<Rightarrow> error + jsstring" where
  "param_004 required kp =
     (case kp of (key, prop) \<Rightarrow>
        bindE (requiredIncludes required key) (\<lambda>isRequired.
        bindE (getCompactType_004 prop) (\<lambda>type.
        Inr (escapeXml key @ (if isRequired then asc ''*'' else asc ''?'') @ asc '':'' @ type))))"

definition jsonSchemaToXml_004 :: "json option \<Rightarrow> error + jsstring" where
  "jsonSchemaToXml_004 s =
     (if \<not> truthy s \<or> \<not> isObject (the s) then Inr (asc ''<schema></schema>'')
      else let schema = the s in
        if field schema (asc ''type'') = Some (JStr (asc ''array''))
           \<and> truthy (field schema (asc ''items'')) then
          bindE (getCompactType_004 (the (field schema (asc ''items'')))) (\<lambda>itemType.
            Inr (asc ''<schema>array['' @ itemType @ asc '']</schema>''))
        else if \<not> truthy (field schema (asc ''properties''))
                \<or> length (entries (the (field schema (asc ''properties'')))) = 0
          then Inr (asc ''<schema></schema>'')
        else bindE (mapM (param_004 (field schema (asc ''required'')))
                      (entries (the (field schema (asc ''properties''))))) (\<lambda>params.
               Inr (asc ''<schema>'' @ join (asc '', '') params @ asc ''</schema>'')))"

subsection \<open>JSON.stringify(schema, null, 2)\<close>

text \<open>
  The serializer of the language, with an indentation of two spaces: \<^verbatim>\<open>QuoteJSONString\<close>
  escapes the quote, the backslash, the control characters and lone surrogates; an empty
  array or object prints as \<^verbatim>\<open>[]\<close> or \<^verbatim>\<open>{}\<close>; the members of a non-empty one stand on
  lines of their own, indented two spaces more than the brackets. \<^verbatim>\<open>undefined\<close>
  serializes to \<^verbatim>\<open>undefined\<close>, not to a string.
\<close>

definition hexDigit :: "nat \<Rightarrow> nat" where
  "hexDigit d = (if d < 10 then 48 + d else 87 + d)"

definition unicodeEscape :: "nat \<Rightarrow> jsstring" where
  "unicodeEscape c =
     [92, 117, hexDigit (c div 4096 mod 16), hexDigit (c div 256 mod 16),
      hexDigit (c div 16 mod 16), hexDigit (c mod 16)]"

fun quoteUnits :: "jsstring \<Rightarrow> jsstring" where
  "quoteUnits [] = []"
| "quoteUnits (c # cs) =
     (if c = 8 then [92, 98] @ quoteUnits cs
      else if c = 9 then [92, 116] @ quoteUnits cs
      else if c = 10 then [92, 110] @ quoteUnits cs
      else if c = 12 then [92, 102] @ quoteUnits cs
      else if c = 13 then [92, 114] @ quoteUnits cs
      else if c = 34 then [92, 34] @ quoteUnits cs
      else if c = 92 then [92, 92] @ quoteUnits cs
      else if c < 32 then unicodeEscape c @ quoteUnits cs
      else if 55296 \<le> c \<and> c \<le> 56319 then
        (case cs of
           d # ds \<Rightarrow> if 56320 \<le> d \<and> d \<le> 57343 then c # d # quoteUnits ds
                     else unicodeEscape c @ quoteUnits cs
         | [] \<Rightarrow> unicodeEscape c)
      else if 56320 \<le> c \<and> c \<le> 57343 then unicodeEscape c @ quoteUnits cs
      else c # quoteUnits cs)"

definition QuoteJSONString :: "jsstring \<Rightarrow> jsstring" where
  "QuoteJSONString s = [34] @ quoteUnits s @ [34]"

fun serialize :: "nat \<Rightarrow> json \<Rightarrow> error + jsstring" where
  "serialize ind JNull = Inr (asc ''null'')"
| "serialize ind (JBool b) = Inr (if b then asc ''true'' else asc ''false'')"
| "serialize ind (JNum n) = ToString (JNum n)"
| "serialize ind (JStr s) = Inr (QuoteJSONString s)"
| "serialize ind (JArr xs) =
     (if xs = [] then Inr (asc ''[]'')
      else bindE (mapM (serialize (ind + 2)) xs) (\<lambda>items.
        Inr (asc ''['' @ [10] @ replicate (ind + 2) 32
             @ join ([44, 10] @ replicate (ind + 2) 32) items
             @ [10] @ replicate ind 32 @ asc '']'')))"
| "serialize ind (JObj es) =
     (if es = [] then Inr (asc ''{}'')
      else bindE (mapM (\<lambda>(k, v). bindE (serialize (ind + 2) v) (\<lambda>s.
                    Inr (QuoteJSONString k @ asc '': '' @ s))) es) (\<lambda>members.
        Inr (asc ''{'' @ [10] @ replicate (ind + 2) 32
             @ join ([44, 10] @ replicate (ind + 2) 32) members
             @ [10] @ replicate ind 32 @ asc ''}'')))"

fun JSON_stringify :: "json option \<Rightarrow> error + jsstring option" where
  "JSON_stringify None = Inr None"
| "JSON_stringify (Some v) = bindE (serialize 0 v) (\<lambda>s. Inr (Some s))"

subsection \<open>estimateTokens\<close>

text \<open>
  \<^verbatim>\<open>estimateTokens\<close> (lines 158 to 182). The words are the pieces of the text
  between runs of white space, the empty ones dropped: the maximal runs of characters
  that are not white space, counted by \<open>countWords\<close> (\<open>isSpace\<close> is the white space of
  a regular expression). The JSON tokens are the occurrences of the six characters of
  \<open>isJsonPunct\<close>: braces, brackets, comma and colon. The guard \<^verbatim>\<open>!text\<close> gives 0 for
  \<^verbatim>\<open>undefined\<close> and for the empty string.
\<close>

definition isSpace :: "nat \<Rightarrow> bool" where
  "isSpace c \<longleftrightarrow> c \<in> {9, 10, 11, 12, 13, 32, 160, 5760, 8232, 8233, 8239, 8287, 12288, 65279}
     \<or> (8192 \<le> c \<and> c \<le> 8202)"

fun countWords :: "bool \<Rightarrow> jsstring \<Rightarrow> nat" where
  "countWords inWord [] = 0"
| "countWords inWord (c # cs) =
     (if isSpace c then countWords False cs
      else (if inWord then 0 else 1) + countWords True cs)"

definition isJsonPunct :: "nat \<Rightarrow> bool" where
  "isJsonPunct c \<longleftrightarrow> c \<in> {123, 125, 91, 93, 44, 58}"

definition estimateTokens :: "jsstring option \<Rightarrow> int" where
  "estimateTokens t =
     (case t of
        None \<Rightarrow> 0
      | Some text \<Rightarrow>
          if text = [] then 0
          else let words = countWords False text;
                   jsonTokens = length (filter isJsonPunct text)
               in if length text < 20 then Math_ceil (toDouble (of_nat (length text) / 3))
                  else Math_ceil (toDouble (toDouble (of_nat words * toDouble (13 / 10))
                                            + toDouble (of_nat jsonTokens * (1 / 2)))))"

subsection \<open>compressSchemaWithMetrics and compressToolSchemas\<close>

text \<open>
  The two result objects share the token counts. \<open>reductionPercent\<close> is the expression
  \<^verbatim>\<open>((originalTokens - compressedTokens) / originalTokens) * 100\<close> in doubles.
\<close>

record metrics =
  originalTokens :: int
  compressedTokens :: int

record SchemaCompressionResult = metrics +
  compressed :: jsstring
  reduction :: int

definition reductionPercent :: "int \<Rightarrow> int \<Rightarrow> rat" where
  "reductionPercent original compressedT =
     toDouble (toDouble (of_int (original - compressedT) / of_int original) * 100)"

text \<open>\<^verbatim>\<open>compressSchemaWithMetrics\<close> (lines 189 to 207).\<close>

definition compressSchemaWithMetrics :: "json option \<Rightarrow> error + SchemaCompressionResult" where
  "compressSchemaWithMetrics schema =
     bindE (JSON_stringify schema) (\<lambda>originalJson.
     bindE (jsonSchemaToXml_004 schema) (\<lambda>compressedS.
     let original = estimateTokens originalJson;
         compressedT = estimateTokens (Some compressedS);
         r = (if original > 0 \<and> compressedT < original
              then reductionPercent original compressedT else 0)
     in Inr \<lparr>originalTokens = original, compressedTokens = compressedT,
              compressed = compressedS, reduction = Math_round r\<rparr>))"

text \<open>
  \<^verbatim>\<open>compressToolSchemas\<close> (lines 214 to 247). The callback of \<^verbatim>\<open>tools.map\<close> adds to the
  two totals and returns the entry of the tool; \<open>toolsLoop\<close> threads the totals through
  the tools from left to right. An entry \<^verbatim>\<open>{name, compressedSchema}\<close> is a pair.
\<close>

record ToolDescriptor =
  name :: jsstring
  inputSchema :: "json option"

record BatchResult = metrics +
  compressedTools :: "(jsstring \<times> jsstring) list"
  totalReduction :: int

fun toolsLoop :: "int \<Rightarrow> int \<Rightarrow> ToolDescriptor list
    \<Rightarrow> error + (int \<times> int \<times> (jsstring \<times> jsstring) list)" where
  "toolsLoop totalOriginalTokens totalCompressedTokens [] =
     Inr (totalOriginalTokens, totalCompressedTokens, [])"
| "toolsLoop totalOriginalTokens totalCompressedTokens (tool # rest) =
     bindE (compressSchemaWithMetrics (inputSchema tool)) (\<lambda>result.
     bindE (toolsLoop (totalOriginalTokens + originalTokens result)
                      (totalCompressedTokens + compressedTokens result) rest) (\<lambda>(o', c', ts).
     Inr (o', c', (name tool, compressed result) # ts)))"

definition compressToolSchemas :: "ToolDescriptor list \<Rightarrow> error + BatchResult" where
  "compressToolSchemas tools =
     bindE (toolsLoop 0 0 tools) (\<lambda>(totalOriginalTokens, totalCompressedTokens, cts).
     Inr \<lparr>originalTokens = totalOriginalTokens, compressedTokens = totalCompressedTokens,
          compressedTools = cts,
          totalReduction =
            (if totalOriginalTokens > 0 \<and> totalCompressedTokens < totalOriginalTokens
             then Math_round (reductionPercent totalOriginalTokens totalCompressedTokens)
             else 0)\<rparr>)"

text \<open>Evaluation of the metrics on a concrete schema.\<close>

lemma bindE_weak_cong: "m = m' \<Longrightarrow> bindE m f = bindE m' f"
  by simp

lemmas metrics_eval = dbl asc_def getCompactType_004.simps basicType_004_def stringType_def
  unionTypes_def escapeXmlValue_def param_004_def jsonSchemaToXml_004_def requiredIncludes_def
  escapeXml_def ENUM_DISPLAY_THRESHOLD_def digits.simps showInt_def
  hexDigit_def unicodeEscape_def QuoteJSONString_def isSpace_def isJsonPunct_def
  estimateTokens_def reductionPercent_def compressSchemaWithMetrics_def compressToolSchemas_def


section \<open>Properties of the metrics\<close>

subsection \<open>Rounding stays between the bounds\<close>

lemma roundEven_ge_floor: "\<lfloor>x\<rfloor> \<le> roundEven x"
  by (simp add: roundEven_def Let_def)

lemma roundEven_le_ceiling: "roundEven x \<le> \<lceil>x\<rceil>"
proof (cases "x - of_int \<lfloor>x\<rfloor> < 1 / 2")
  case True
  then have "roundEven x = \<lfloor>x\<rfloor>" by (simp add: roundEven_def Let_def)
  then show ?thesis by (simp add: floor_le_ceiling)
next
  case False
  then have "of_int \<lfloor>x\<rfloor> < x" by simp
  then have "\<lfloor>x\<rfloor> < \<lceil>x\<rceil>" by (simp add: less_ceiling_iff)
  moreover have "roundEven x \<le> \<lfloor>x\<rfloor> + 1" by (simp add: roundEven_def Let_def)
  ultimately show ?thesis by simp
qed

lemma toDouble_nonneg: "0 \<le> x \<Longrightarrow> 0 \<le> toDouble x"
proof -
  assume x: "0 \<le> x"
  have r: "\<And>y :: rat. 0 \<le> y \<Longrightarrow> 0 \<le> roundEven y"
  proof -
    fix y :: rat assume "0 \<le> y"
    then have "0 \<le> \<lfloor>y\<rfloor>" by simp
    then show "0 \<le> roundEven y" using roundEven_ge_floor [of y] by linarith
  qed
  show ?thesis using x by (auto simp: toDouble_def Let_def intro!: r mult_nonneg_nonneg divide_nonneg_nonneg)
qed

lemma toDouble_nonpos: "x \<le> 0 \<Longrightarrow> toDouble x \<le> 0"
proof -
  assume x: "x \<le> 0"
  have r: "\<And>y :: rat. y \<le> 0 \<Longrightarrow> roundEven y \<le> 0"
  proof -
    fix y :: rat assume "y \<le> 0"
    then have "\<lceil>y\<rceil> \<le> 0" by (simp add: ceiling_le_iff)
    then show "roundEven y \<le> 0" using roundEven_le_ceiling [of y] by linarith
  qed
  have a: "\<And>n. roundEven (x / 2 ^ n) \<le> 0" using x by (intro r) (simp add: divide_nonpos_pos)
  have b: "\<And>n. roundEven (x * 2 ^ n) \<le> 0" using x by (intro r) (simp add: mult_nonpos_nonneg)
  show ?thesis using a b
    by (auto simp: toDouble_def Let_def intro!: mult_nonpos_nonneg divide_nonpos_pos)
qed

lemma expDown_nonpos: "expDown x \<le> 0"
proof (induction x rule: expDown.induct)
  case (1 x)
  then show ?case by (cases "x \<le> 0 \<or> 1 \<le> x") (simp_all add: expDown.simps [of x])
qed

text \<open>\<open>binExp\<close> is the binary exponent: \<open>2 ^ e \<le> x < 2 ^ (e + 1)\<close>.\<close>

lemma expUp_bounds:
  "1 \<le> x \<Longrightarrow> 0 \<le> expUp x \<and> 2 ^ nat (expUp x) \<le> x \<and> x < 2 * 2 ^ nat (expUp x)"
proof (induction x rule: expUp.induct)
  case (1 x)
  show ?case
  proof (cases "x < 2")
    case True
    then show ?thesis using 1 by (simp add: expUp.simps [of x])
  next
    case False
    then have h: "0 \<le> expUp (x / 2)" "2 ^ nat (expUp (x / 2)) \<le> x / 2"
      "x / 2 < 2 * 2 ^ nat (expUp (x / 2))" using 1 by simp_all
    have e: "expUp x = 1 + expUp (x / 2)" using False by (simp add: expUp.simps [of x])
    have n: "nat (expUp x) = Suc (nat (expUp (x / 2)))" using e h(1) by simp
    have "0 \<le> expUp x" using e h(1) by simp
    moreover have "2 ^ nat (expUp x) \<le> x" using h(2) by (simp add: n)
    moreover have "x < 2 * 2 ^ nat (expUp x)" using h(3) by (simp add: n)
    ultimately show ?thesis by simp
  qed
qed

lemma expDown_bounds:
  "0 < x \<Longrightarrow> x < 1 \<Longrightarrow>
   expDown x < 0 \<and> 1 \<le> x * 2 ^ nat (- expDown x) \<and> x * 2 ^ nat (- expDown x) < 2"
proof (induction x rule: expDown.induct)
  case (1 x)
  have e: "expDown x = expDown (2 * x) - 1" using 1 by (simp add: expDown.simps [of x])
  show ?case
  proof (cases "1 \<le> 2 * x")
    case True
    then have "expDown (2 * x) = 0" by (simp add: expDown.simps [of "2 * x"])
    then show ?thesis using e True 1 by simp
  next
    case False
    then have h: "expDown (2 * x) < 0" "1 \<le> 2 * x * 2 ^ nat (- expDown (2 * x))"
      "2 * x * 2 ^ nat (- expDown (2 * x)) < 2" using 1 by simp_all
    have n: "nat (- expDown x) = Suc (nat (- expDown (2 * x)))" using e h(1) by simp
    have "expDown x < 0" using e h(1) by simp
    moreover have "1 \<le> x * 2 ^ nat (- expDown x)" using h(2) by (simp add: n mult_ac)
    moreover have "x * 2 ^ nat (- expDown x) < 2" using h(3) by (simp add: n mult_ac)
    ultimately show ?thesis by simp
  qed
qed

lemma binExp_bounds:
  assumes "0 < x"
  shows "(0 \<le> binExp x \<longrightarrow> 2 ^ nat (binExp x) \<le> x \<and> x < 2 * 2 ^ nat (binExp x))
       \<and> (binExp x < 0 \<longrightarrow> 1 \<le> x * 2 ^ nat (- binExp x) \<and> x * 2 ^ nat (- binExp x) < 2)"
proof (cases "1 \<le> x")
  case True
  from expUp_bounds [OF True] show ?thesis using True by (simp add: binExp_def)
next
  case False
  then have "x < 1" by simp
  from expDown_bounds [OF assms this] show ?thesis using False by (simp add: binExp_def)
qed

text \<open>
  So the scaled value that \<open>toDouble\<close> rounds lies in \<open>[2 ^ 52, 2 ^ 53)\<close>: the rounding
  keeps 53 significant bits, and \<open>roundEven\<close> moves it by at most one half.
\<close>

lemma scaled_significand:
  assumes "0 < x"
  shows "(52 \<le> binExp x \<longrightarrow> 2 ^ 52 \<le> x / 2 ^ nat (binExp x - 52) \<and> x / 2 ^ nat (binExp x - 52) < 2 ^ 53)
       \<and> (binExp x < 52 \<longrightarrow> 2 ^ 52 \<le> x * 2 ^ nat (52 - binExp x) \<and> x * 2 ^ nat (52 - binExp x) < 2 ^ 53)"
proof (intro conjI impI)
  assume e: "52 \<le> binExp x"
  then have b: "2 ^ nat (binExp x) \<le> x" "x < 2 * 2 ^ nat (binExp x)"
    using binExp_bounds [OF assms] by simp_all
  have s: "nat (binExp x) = nat (binExp x - 52) + 52" using e by simp
  have p: "(2::rat) ^ nat (binExp x) = 2 ^ nat (binExp x - 52) * 2 ^ 52"
    by (subst s) (simp only: power_add)
  show "2 ^ 52 \<le> x / 2 ^ nat (binExp x - 52)" using b(1) unfolding p
    by (simp add: le_divide_eq mult.commute)
  show "x / 2 ^ nat (binExp x - 52) < 2 ^ 53" using b(2) unfolding p
    by (simp add: divide_less_eq mult.commute)
next
  assume e: "binExp x < 52"
  show "2 ^ 52 \<le> x * 2 ^ nat (52 - binExp x)"
  proof (cases "0 \<le> binExp x")
    case True
    then have b: "2 ^ nat (binExp x) \<le> x" using binExp_bounds [OF assms] by simp
    have s: "52 = nat (binExp x) + nat (52 - binExp x)" using e True by simp
    have "(2::rat) ^ 52 = 2 ^ nat (binExp x) * 2 ^ nat (52 - binExp x)"
      by (subst s) (simp only: power_add)
    also have "\<dots> \<le> x * 2 ^ nat (52 - binExp x)" using b by (simp add: mult_right_mono)
    finally show ?thesis .
  next
    case False
    then have b: "1 \<le> x * 2 ^ nat (- binExp x)" using binExp_bounds [OF assms] by simp
    have s: "nat (52 - binExp x) = nat (- binExp x) + 52" using False by simp
    have "(2::rat) ^ 52 = 1 * 2 ^ 52" by simp
    also have "\<dots> \<le> (x * 2 ^ nat (- binExp x)) * 2 ^ 52"
      using b by (intro mult_right_mono) simp_all
    also have "\<dots> = x * 2 ^ nat (52 - binExp x)"
      by (subst s) (simp only: power_add mult.assoc)
    finally show ?thesis .
  qed
  show "x * 2 ^ nat (52 - binExp x) < 2 ^ 53"
  proof (cases "0 \<le> binExp x")
    case True
    then have b: "x < 2 * 2 ^ nat (binExp x)" using binExp_bounds [OF assms] by simp
    have s: "52 = nat (binExp x) + nat (52 - binExp x)" using e True by simp
    have "x * 2 ^ nat (52 - binExp x) < (2 * 2 ^ nat (binExp x)) * 2 ^ nat (52 - binExp x)"
      using b by (intro mult_strict_right_mono) simp_all
    also have "\<dots> = 2 * (2::rat) ^ (nat (binExp x) + nat (52 - binExp x))"
      by (simp only: power_add mult.assoc)
    also have "\<dots> = 2 ^ 53" using s by simp
    finally show ?thesis .
  next
    case False
    then have b: "x * 2 ^ nat (- binExp x) < 2" using binExp_bounds [OF assms] by simp
    have s: "nat (52 - binExp x) = nat (- binExp x) + 52" using False by simp
    have "x * 2 ^ nat (52 - binExp x) = (x * 2 ^ nat (- binExp x)) * 2 ^ 52"
      by (subst s) (simp only: power_add mult.assoc)
    also have "\<dots> < 2 * 2 ^ 52"
      using b by (intro mult_strict_right_mono) simp_all
    also have "\<dots> = (2::rat) ^ 53" by simp
    finally show ?thesis .
  qed
qed

lemma roundEven_nearest: "\<bar>of_int (roundEven x) - x\<bar> \<le> 1 / 2"
proof -
  have "of_int \<lfloor>x\<rfloor> \<le> x" "x < of_int \<lfloor>x\<rfloor> + 1" by linarith+
  then show ?thesis by (auto simp: roundEven_def Let_def abs_le_iff)
qed

lemma binExp_le: assumes "0 < x" and "x \<le> 100" shows "binExp x \<le> 52"
proof (cases "1 \<le> x")
  case False
  then show ?thesis using expDown_nonpos [of x] by (simp add: binExp_def)
next
  case True
  from expUp_bounds [OF True] have e: "0 \<le> expUp x" "(2 :: rat) ^ nat (expUp x) \<le> x" by simp_all
  have "(2 :: rat) ^ nat (expUp x) < 2 ^ 7" using e assms by simp
  then have "nat (expUp x) < 7" by (rule power_less_imp_less_exp [rotated]) simp
  then show ?thesis using True by (simp add: binExp_def)
qed

lemma toDouble_le_int:
  assumes x: "0 < x" and b: "x \<le> of_int B" and e: "binExp x \<le> 52"
  shows "toDouble x \<le> of_int B"
proof -
  define n where "n = nat (52 - binExp x)"
  have "x * 2 ^ n \<le> of_int (B * 2 ^ n)" using b by simp
  then have "\<lceil>x * 2 ^ n\<rceil> \<le> B * 2 ^ n" by (simp only: ceiling_le_iff)
  then have "roundEven (x * 2 ^ n) \<le> B * 2 ^ n"
    using roundEven_le_ceiling [of "x * 2 ^ n"] by linarith
  then have "(of_int (roundEven (x * 2 ^ n)) :: rat) \<le> of_int (B * 2 ^ n)"
    by (simp only: of_int_le_iff)
  then have le: "(of_int (roundEven (x * 2 ^ n)) :: rat) / 2 ^ n \<le> of_int B"
    by (simp add: divide_le_eq)
  show ?thesis
  proof (cases "binExp x = 52")
    case True
    then have "n = 0" by (simp add: n_def)
    then show ?thesis using le x True by (simp add: toDouble_def Let_def)
  next
    case False
    then have "\<not> 52 \<le> binExp x" using e by simp
    then show ?thesis using le x by (simp add: toDouble_def Let_def n_def)
  qed
qed

lemma reductionPercent_range:
  assumes "0 \<le> c" and "c < original"
  shows "0 \<le> reductionPercent original c \<and> reductionPercent original c \<le> 100"
proof -
  let ?q = "of_int (original - c) / of_int original :: rat"
  have q: "0 < ?q" "?q \<le> 1" using assms by simp_all
  have d0: "0 \<le> toDouble ?q" using q by (intro toDouble_nonneg) simp
  have "toDouble ?q \<le> of_int 1"
    using q by (intro toDouble_le_int binExp_le) simp_all
  then have d1: "toDouble ?q \<le> 1" by simp
  have p0: "0 \<le> toDouble ?q * 100" using d0 by simp
  have p1: "toDouble ?q * 100 \<le> 100" using d1 by simp
  have "toDouble (toDouble ?q * 100) \<le> of_int 100"
  proof (cases "toDouble ?q * 100 = 0")
    case True
    then show ?thesis by (simp add: toDouble_def)
  next
    case False
    then have "0 < toDouble ?q * 100" using p0 by simp
    then show ?thesis using p1 by (intro toDouble_le_int binExp_le) simp_all
  qed
  moreover have "0 \<le> toDouble (toDouble ?q * 100)" using p0 by (rule toDouble_nonneg)
  ultimately show ?thesis by (simp add: reductionPercent_def)
qed

lemma reductionPercent_nonpos:
  assumes "0 < original" and "original \<le> c"
  shows "reductionPercent original c \<le> 0"
proof -
  have "of_int (original - c) / of_int original \<le> (0 :: rat)"
    using assms by (simp add: divide_le_0_iff)
  then have "toDouble (of_int (original - c) / of_int original) * 100 \<le> 0"
    using toDouble_nonpos by (simp add: mult_le_0_iff)
  then show ?thesis unfolding reductionPercent_def by (rule toDouble_nonpos)
qed

lemma Math_round_range: "0 \<le> x \<Longrightarrow> x \<le> 100 \<Longrightarrow> 0 \<le> Math_round x \<and> Math_round x \<le> 100"
  by (simp add: Math_round_def floor_le_iff le_floor_iff) 

lemma Math_round_0: "Math_round 0 = 0"
  by (simp add: Math_round_def floor_rat_one_numeral)

lemma Math_ceil_nonneg: "0 \<le> x \<Longrightarrow> 0 \<le> Math_ceil x"
  by (simp add: Math_ceil_def)

lemma estimateTokens_nonneg: "0 \<le> estimateTokens t"
  by (auto simp: estimateTokens_def Let_def split: option.splits
           intro!: Math_ceil_nonneg toDouble_nonneg add_nonneg_nonneg mult_nonneg_nonneg)

subsection \<open>What the two functions return\<close>

lemma compressSchemaWithMetrics_returns:
  assumes "JSON_stringify schema = Inr originalJson" and "jsonSchemaToXml_004 schema = Inr c"
  shows "compressSchemaWithMetrics schema =
     Inr \<lparr>originalTokens = estimateTokens originalJson,
          compressedTokens = estimateTokens (Some c),
          compressed = c,
          reduction = Math_round
            (if estimateTokens originalJson > 0 \<and> estimateTokens (Some c) < estimateTokens originalJson
             then reductionPercent (estimateTokens originalJson) (estimateTokens (Some c)) else 0)\<rparr>"
  using assms by (simp add: compressSchemaWithMetrics_def Let_def)

lemma compressSchemaWithMetrics_Inr:
  assumes "compressSchemaWithMetrics schema = Inr r"
  shows "\<exists>originalJson c. JSON_stringify schema = Inr originalJson \<and> jsonSchemaToXml_004 schema = Inr c
     \<and> r = \<lparr>originalTokens = estimateTokens originalJson,
          compressedTokens = estimateTokens (Some c),
          compressed = c,
          reduction = Math_round
            (if estimateTokens originalJson > 0 \<and> estimateTokens (Some c) < estimateTokens originalJson
             then reductionPercent (estimateTokens originalJson) (estimateTokens (Some c)) else 0)\<rparr>"
proof -
  obtain j where j: "JSON_stringify schema = Inr j"
    using assms by (cases "JSON_stringify schema") (simp_all add: compressSchemaWithMetrics_def)
  obtain c where c: "jsonSchemaToXml_004 schema = Inr c"
    using assms j by (cases "jsonSchemaToXml_004 schema") (simp_all add: compressSchemaWithMetrics_def)
  show ?thesis using assms compressSchemaWithMetrics_returns [OF j c] j c by auto
qed

lemma clamped:
  assumes "0 \<le> original" and "0 \<le> c"
  shows "Math_round (if original > 0 \<and> c < original then reductionPercent original c else 0)
           = (if original = 0 then 0 else Math_round (max 0 (reductionPercent original c)))"
    and "0 \<le> Math_round (if original > 0 \<and> c < original then reductionPercent original c else 0)"
    and "Math_round (if original > 0 \<and> c < original then reductionPercent original c else 0) \<le> 100"
proof -
  consider (zero) "original = 0" | (less) "0 < original" "c < original" | (more) "0 < original" "original \<le> c"
    using assms by linarith
  then have "Math_round (if original > 0 \<and> c < original then reductionPercent original c else 0)
           = (if original = 0 then 0 else Math_round (max 0 (reductionPercent original c)))
     \<and> 0 \<le> Math_round (if original > 0 \<and> c < original then reductionPercent original c else 0)
     \<and> Math_round (if original > 0 \<and> c < original then reductionPercent original c else 0) \<le> 100"
  proof cases
    case zero
    then show ?thesis by (simp add: Math_round_0)
  next
    case less
    from reductionPercent_range [OF assms(2) less(2)] Math_round_range
    show ?thesis using less by (simp add: max_def)
  next
    case more
    from reductionPercent_nonpos [OF more] show ?thesis using more by (simp add: max_def Math_round_0)
  qed
  then show "Math_round (if original > 0 \<and> c < original then reductionPercent original c else 0)
           = (if original = 0 then 0 else Math_round (max 0 (reductionPercent original c)))"
    and "0 \<le> Math_round (if original > 0 \<and> c < original then reductionPercent original c else 0)"
    and "Math_round (if original > 0 \<and> c < original then reductionPercent original c else 0) \<le> 100"
    by simp_all
qed

lemma toolsLoop_all2:
  "list_all2 (\<lambda>t r. compressSchemaWithMetrics (inputSchema t) = Inr r) tools rs \<Longrightarrow>
   toolsLoop a b tools =
     Inr (a + sum_list (map originalTokens rs), b + sum_list (map compressedTokens rs),
          map2 (\<lambda>t r. (name t, compressed r)) tools rs)"
  by (induction tools rs arbitrary: a b rule: list_all2_induct) (simp_all add: add.assoc)

lemma toolsLoop_Inr:
  "toolsLoop a b tools = Inr (a', b', cts) \<Longrightarrow>
   \<exists>rs. list_all2 (\<lambda>t r. compressSchemaWithMetrics (inputSchema t) = Inr r) tools rs"
proof (induction tools arbitrary: a b a' b' cts)
  case Nil
  then show ?case by simp
next
  case (Cons t tools)
  from Cons.prems obtain r where r: "compressSchemaWithMetrics (inputSchema t) = Inr r"
    by (cases "compressSchemaWithMetrics (inputSchema t)") simp_all
  from Cons.prems r obtain x where
    "toolsLoop (a + originalTokens r) (b + compressedTokens r) tools = Inr x"
    by (cases "toolsLoop (a + originalTokens r) (b + compressedTokens r) tools") simp_all
  then obtain rs where "list_all2 (\<lambda>t r. compressSchemaWithMetrics (inputSchema t) = Inr r) tools rs"
    using Cons.IH by (cases x) blast
  then show ?case using r by (intro exI [of _ "r # rs"]) simp
qed

lemma result_tokens_nonneg:
  "compressSchemaWithMetrics s = Inr r \<Longrightarrow> 0 \<le> originalTokens r \<and> 0 \<le> compressedTokens r"
  by (auto dest!: compressSchemaWithMetrics_Inr simp: estimateTokens_nonneg)

lemma sums_nonneg:
  "list_all2 (\<lambda>t r. compressSchemaWithMetrics (inputSchema t) = Inr r) tools rs \<Longrightarrow>
   0 \<le> sum_list (map originalTokens rs) \<and> 0 \<le> sum_list (map compressedTokens rs)"
  by (induction tools rs rule: list_all2_induct) (auto dest: result_tokens_nonneg)

lemma compressToolSchemas_all2:
  assumes "list_all2 (\<lambda>t r. compressSchemaWithMetrics (inputSchema t) = Inr r) tools rs"
  shows "compressToolSchemas tools =
     Inr \<lparr>originalTokens = sum_list (map originalTokens rs),
          compressedTokens = sum_list (map compressedTokens rs),
          compressedTools = map2 (\<lambda>t r. (name t, compressed r)) tools rs,
          totalReduction =
            (if sum_list (map originalTokens rs) > 0
                \<and> sum_list (map compressedTokens rs) < sum_list (map originalTokens rs)
             then Math_round (reductionPercent (sum_list (map originalTokens rs))
                                               (sum_list (map compressedTokens rs)))
             else 0)\<rparr>"
  using toolsLoop_all2 [OF assms, of 0 0] by (simp add: compressToolSchemas_def)

subsection \<open>Examples\<close>

lemma ev_empty_object:
  "compressSchemaWithMetrics (Some (JObj [])) =
     Inr \<lparr>originalTokens = 1, compressedTokens = 6, compressed = asc ''<schema></schema>'',
          reduction = 0\<rparr>"
  by (simp add: metrics_eval cong: let_weak_cong bindE_weak_cong)

lemma ev_absent:
  "compressSchemaWithMetrics None =
     Inr \<lparr>originalTokens = 0, compressedTokens = 6, compressed = asc ''<schema></schema>'',
          reduction = 0\<rparr>"
  by (simp add: metrics_eval cong: let_weak_cong bindE_weak_cong)

lemma ev_search:
  "compressSchemaWithMetrics (Some (JObj [(asc ''type'', JStr (asc ''object'')),
       (asc ''properties'', JObj [(asc ''query'', JObj [(asc ''type'', JStr (asc ''string''))])]),
       (asc ''required'', JArr [JStr (asc ''query'')])])) =
     Inr \<lparr>originalTokens = 29, compressedTokens = 2,
          compressed = asc ''<schema>query*:string</schema>'', reduction = 93\<rparr>"
  by (simp add: metrics_eval cong: let_weak_cong bindE_weak_cong)

lemma ev_translate:
  "compressSchemaWithMetrics (Some (JObj [(asc ''type'', JStr (asc ''object'')),
       (asc ''properties'', JObj [(asc ''text'', JObj [(asc ''type'', JStr (asc ''string''))]),
          (asc ''target_lang'', JObj [(asc ''type'', JStr (asc ''string''))]),
          (asc ''source_lang'', JObj [(asc ''type'', JStr (asc ''string''))])]),
       (asc ''required'', JArr [JStr (asc ''text''), JStr (asc ''target_lang'')])])) =
     Inr \<lparr>originalTokens = 49, compressedTokens = 7,
          compressed = asc ''<schema>text*:string, target_lang*:string, source_lang?:string</schema>'',
          reduction = 86\<rparr>"
  by (simp add: metrics_eval cong: let_weak_cong bindE_weak_cong)

lemma ev_expanding_batch:
  "compressToolSchemas [\<lparr>name = asc ''ping'', inputSchema = None\<rparr>,
                        \<lparr>name = asc ''noop'', inputSchema = Some (JObj [])\<rparr>] =
     Inr \<lparr>originalTokens = 1, compressedTokens = 12,
          compressedTools = [(asc ''ping'', asc ''<schema></schema>''),
                             (asc ''noop'', asc ''<schema></schema>'')],
          totalReduction = 0\<rparr>"
  using compressToolSchemas_all2 [of
      "[\<lparr>name = asc ''ping'', inputSchema = None\<rparr>,
        \<lparr>name = asc ''noop'', inputSchema = Some (JObj [])\<rparr>]"
      "[\<lparr>originalTokens = 0, compressedTokens = 6, compressed = asc ''<schema></schema>'',
          reduction = 0\<rparr>,
        \<lparr>originalTokens = 1, compressedTokens = 6, compressed = asc ''<schema></schema>'',
          reduction = 0\<rparr>]"]
    ev_absent ev_empty_object
  by simp

subsection \<open>The reduction\<close>

text \<open>
  Claim C4 (non-negative clamped reduction), on \<^verbatim>\<open>src/unnamed/part_004\<close>.
  \<^verbatim>\<open>compressSchemaWithMetrics\<close> returns whenever the serializer and the encoder return.
  Every result \<open>r\<close> has \<open>reduction r\<close> equal to 0 when \<open>originalTokens r\<close> is 0 and to
  \<^verbatim>\<open>Math.round(Math.max(0, (originalTokens - compressedTokens) / originalTokens * 100))\<close>
  otherwise, the quotient and the product taken in the program's double arithmetic; it
  lies between 0 and 100, also when the compressed text has more tokens than the
  original. The same holds for \<open>totalReduction\<close> of every result of
  \<^verbatim>\<open>compressToolSchemas\<close>.
\<close>

theorem reduction_clamped:
  "(\<forall>schema originalJson c.
       JSON_stringify schema = Inr originalJson \<and> jsonSchemaToXml_004 schema = Inr c \<longrightarrow>
       (\<exists>r. compressSchemaWithMetrics schema = Inr r))
   \<and> (\<forall>schema r. compressSchemaWithMetrics schema = Inr r \<longrightarrow>
         reduction r =
           (if originalTokens r = 0 then 0
            else Math_round (max 0 (reductionPercent (originalTokens r) (compressedTokens r))))
         \<and> 0 \<le> reduction r \<and> reduction r \<le> 100)
   \<and> (\<forall>tools b. compressToolSchemas tools = Inr b \<longrightarrow>
         totalReduction b =
           (if originalTokens b = 0 then 0
            else Math_round (max 0 (reductionPercent (originalTokens b) (compressedTokens b))))
         \<and> 0 \<le> totalReduction b \<and> totalReduction b \<le> 100)"
proof (intro conjI allI impI)
  fix schema originalJson c
  assume "JSON_stringify schema = Inr originalJson \<and> jsonSchemaToXml_004 schema = Inr c"
  then show "\<exists>r. compressSchemaWithMetrics schema = Inr r"
    using compressSchemaWithMetrics_returns by blast
next
  fix schema r
  assume a: "compressSchemaWithMetrics schema = Inr r"
  from compressSchemaWithMetrics_Inr [OF a] obtain j c where
    r: "r = \<lparr>originalTokens = estimateTokens j, compressedTokens = estimateTokens (Some c),
          compressed = c,
          reduction = Math_round
            (if estimateTokens j > 0 \<and> estimateTokens (Some c) < estimateTokens j
             then reductionPercent (estimateTokens j) (estimateTokens (Some c)) else 0)\<rparr>"
    by blast
  note cl = clamped [OF estimateTokens_nonneg [of j] estimateTokens_nonneg [of "Some c"]]
  show "reduction r =
           (if originalTokens r = 0 then 0
            else Math_round (max 0 (reductionPercent (originalTokens r) (compressedTokens r))))"
    using cl(1) by (simp add: r)
  show "0 \<le> reduction r" using cl(2) by (simp add: r)
  show "reduction r \<le> 100" using cl(3) by (simp add: r)
next
  fix tools b
  assume a: "compressToolSchemas tools = Inr b"
  then obtain x where x: "toolsLoop 0 0 tools = Inr x"
    by (cases "toolsLoop 0 0 tools") (simp_all add: compressToolSchemas_def)
  then obtain rs where rs: "list_all2 (\<lambda>t r. compressSchemaWithMetrics (inputSchema t) = Inr r) tools rs"
    using toolsLoop_Inr [of 0 0 tools] by (cases x) blast
  note cl = clamped [OF sums_nonneg [OF rs, THEN conjunct1] sums_nonneg [OF rs, THEN conjunct2]]
  have b: "b = \<lparr>originalTokens = sum_list (map originalTokens rs),
          compressedTokens = sum_list (map compressedTokens rs),
          compressedTools = map2 (\<lambda>t r. (name t, compressed r)) tools rs,
          totalReduction =
            (if sum_list (map originalTokens rs) > 0
                \<and> sum_list (map compressedTokens rs) < sum_list (map originalTokens rs)
             then Math_round (reductionPercent (sum_list (map originalTokens rs))
                                               (sum_list (map compressedTokens rs)))
             else 0)\<rparr>"
    using a compressToolSchemas_all2 [OF rs] by simp
  have t: "totalReduction b = Math_round
      (if sum_list (map originalTokens rs) > 0
                \<and> sum_list (map compressedTokens rs) < sum_list (map originalTokens rs)
       then reductionPercent (sum_list (map originalTokens rs)) (sum_list (map compressedTokens rs))
       else 0)"
    by (simp add: b Math_round_0)
  show "totalReduction b =
           (if originalTokens b = 0 then 0
            else Math_round (max 0 (reductionPercent (originalTokens b) (compressedTokens b))))"
    using cl(1) t by (simp add: b)
  show "0 \<le> totalReduction b" using cl(2) t by simp
  show "totalReduction b \<le> 100" using cl(3) t by simp
qed

theorem reduction_clamped_witness:
  "(\<exists>r. compressSchemaWithMetrics (Some (JObj [])) = Inr r
        \<and> originalTokens r < compressedTokens r \<and> reduction r = 0
        \<and> 0 \<le> reduction r \<and> reduction r \<le> 100)
   \<and> (\<exists>r. compressSchemaWithMetrics (Some (JObj [(asc ''type'', JStr (asc ''object'')),
       (asc ''properties'', JObj [(asc ''query'', JObj [(asc ''type'', JStr (asc ''string''))])]),
       (asc ''required'', JArr [JStr (asc ''query'')])])) = Inr r
        \<and> reduction r = Math_round (max 0 (reductionPercent 29 2)) \<and> reduction r = 93)
   \<and> (\<exists>b. compressToolSchemas [\<lparr>name = asc ''ping'', inputSchema = None\<rparr>,
                               \<lparr>name = asc ''noop'', inputSchema = Some (JObj [])\<rparr>] = Inr b
        \<and> originalTokens b < compressedTokens b \<and> totalReduction b = 0
        \<and> 0 \<le> totalReduction b \<and> totalReduction b \<le> 100)"
proof -
  from reduction_clamped have c: "\<And>schema r. compressSchemaWithMetrics schema = Inr r \<Longrightarrow>
         reduction r =
           (if originalTokens r = 0 then 0
            else Math_round (max 0 (reductionPercent (originalTokens r) (compressedTokens r))))
         \<and> 0 \<le> reduction r \<and> reduction r \<le> 100"
    and t: "\<And>tools b. compressToolSchemas tools = Inr b \<Longrightarrow>
         totalReduction b =
           (if originalTokens b = 0 then 0
            else Math_round (max 0 (reductionPercent (originalTokens b) (compressedTokens b))))
         \<and> 0 \<le> totalReduction b \<and> totalReduction b \<le> 100"
    by blast+
  show ?thesis
    using c [OF ev_empty_object] c [OF ev_search] t [OF ev_expanding_batch]
      ev_empty_object ev_search ev_expanding_batch
    by simp
qed

subsection \<open>The batch\<close>

text \<open>
  Claim C5 (batch aggregation), on \<^verbatim>\<open>src/unnamed/part_004\<close>. Let \<open>rs\<close> be the results
  of \<^verbatim>\<open>compressSchemaWithMetrics\<close> on the schemas of the tools, in order. Then
  \<^verbatim>\<open>compressToolSchemas\<close> returns; its \<open>originalTokens\<close> and \<open>compressedTokens\<close> are the
  sums of those of \<open>rs\<close>; its \<open>totalReduction\<close> is computed from the two sums (the
  rounded percentage when the compressed sum is below a positive original sum, 0
  otherwise) and not from the reductions of \<open>rs\<close>; and \<open>compressedTools\<close> has one entry
  for each tool, in the order of the tools, with the name of the tool and its compressed
  schema. In the witness the two tools have the reductions 93 and 86, whose average is
  not the 88 of the batch.
\<close>

theorem batch_aggregation:
  assumes "list_all2 (\<lambda>t r. compressSchemaWithMetrics (inputSchema t) = Inr r) tools rs"
  shows "\<exists>b. compressToolSchemas tools = Inr b
     \<and> originalTokens b = sum_list (map originalTokens rs)
     \<and> compressedTokens b = sum_list (map compressedTokens rs)
     \<and> totalReduction b =
         (if originalTokens b > 0 \<and> compressedTokens b < originalTokens b
          then Math_round (reductionPercent (originalTokens b) (compressedTokens b)) else 0)
     \<and> length (compressedTools b) = length tools
     \<and> compressedTools b = map2 (\<lambda>t r. (name t, compressed r)) tools rs"
  using compressToolSchemas_all2 [OF assms] list_all2_lengthD [OF assms] by simp

theorem batch_aggregation_witness:
  "\<exists>b. compressToolSchemas
      [\<lparr>name = asc ''search'', inputSchema = Some (JObj [(asc ''type'', JStr (asc ''object'')),
          (asc ''properties'', JObj [(asc ''query'', JObj [(asc ''type'', JStr (asc ''string''))])]),
          (asc ''required'', JArr [JStr (asc ''query'')])])\<rparr>,
       \<lparr>name = asc ''translate'', inputSchema = Some (JObj [(asc ''type'', JStr (asc ''object'')),
          (asc ''properties'', JObj [(asc ''text'', JObj [(asc ''type'', JStr (asc ''string''))]),
             (asc ''target_lang'', JObj [(asc ''type'', JStr (asc ''string''))]),
             (asc ''source_lang'', JObj [(asc ''type'', JStr (asc ''string''))])]),
          (asc ''required'', JArr [JStr (asc ''text''), JStr (asc ''target_lang'')])])\<rparr>] = Inr b
     \<and> originalTokens b = 29 + 49 \<and> compressedTokens b = 2 + 7
     \<and> totalReduction b = Math_round (reductionPercent 78 9)
     \<and> totalReduction b = 88
     \<and> compressedTools b =
         [(asc ''search'', asc ''<schema>query*:string</schema>''),
          (asc ''translate'',
           asc ''<schema>text*:string, target_lang*:string, source_lang?:string</schema>'')]"
proof -
  have r: "Math_round (reductionPercent 78 9) = 88"
    by (simp add: reductionPercent_def dbl)
  from batch_aggregation [of
      "[\<lparr>name = asc ''search'', inputSchema = Some (JObj [(asc ''type'', JStr (asc ''object'')),
          (asc ''properties'', JObj [(asc ''query'', JObj [(asc ''type'', JStr (asc ''string''))])]),
          (asc ''required'', JArr [JStr (asc ''query'')])])\<rparr>,
       \<lparr>name = asc ''translate'', inputSchema = Some (JObj [(asc ''type'', JStr (asc ''object'')),
          (asc ''properties'', JObj [(asc ''text'', JObj [(asc ''type'', JStr (asc ''string''))]),
             (asc ''target_lang'', JObj [(asc ''type'', JStr (asc ''string''))]),
             (asc ''source_lang'', JObj [(asc ''type'', JStr (asc ''string''))])]),
          (asc ''required'', JArr [JStr (asc ''text''), JStr (asc ''target_lang'')])])\<rparr>]"
      "[\<lparr>originalTokens = 29, compressedTokens = 2,
          compressed = asc ''<schema>query*:string</schema>'', reduction = 93\<rparr>,
        \<lparr>originalTokens = 49, compressedTokens = 7,
          compressed = asc ''<schema>text*:string, target_lang*:string, source_lang?:string</schema>'',
          reduction = 86\<rparr>]"]
      ev_search ev_translate
  obtain b where b: "compressToolSchemas
      [\<lparr>name = asc ''search'', inputSchema = Some (JObj [(asc ''type'', JStr (asc ''object'')),
          (asc ''properties'', JObj [(asc ''query'', JObj [(asc ''type'', JStr (asc ''string''))])]),
          (asc ''required'', JArr [JStr (asc ''query'')])])\<rparr>,
       \<lparr>name = asc ''translate'', inputSchema = Some (JObj [(asc ''type'', JStr (asc ''object'')),
          (asc ''properties'', JObj [(asc ''text'', JObj [(asc ''type'', JStr (asc ''string''))]),
             (asc ''target_lang'', JObj [(asc ''type'', JStr (asc ''string''))]),
             (asc ''source_lang'', JObj [(asc ''type'', JStr (asc ''string''))])]),
          (asc ''required'', JArr [JStr (asc ''text''), JStr (asc ''target_lang'')])])\<rparr>] = Inr b"
    and t: "originalTokens b = 78" "compressedTokens b = 9"
    and red: "totalReduction b =
         (if originalTokens b > 0 \<and> compressedTokens b < originalTokens b
          then Math_round (reductionPercent (originalTokens b) (compressedTokens b)) else 0)"
    and ct: "compressedTools b =
         [(asc ''search'', asc ''<schema>query*:string</schema>''),
          (asc ''translate'',
           asc ''<schema>text*:string, target_lang*:string, source_lang?:string</schema>'')]"
    by auto
  have "totalReduction b = Math_round (reductionPercent 78 9)" using red t by simp
  then show ?thesis using b t ct r by (intro exI [of _ b]) simp
qed

text \<open>
  Claim C6 (absent schema in the batch), on \<^verbatim>\<open>src/unnamed/part_004\<close>. A tool without
  \<^verbatim>\<open>inputSchema\<close> compresses to the sentinel \<^verbatim>\<open><schema></schema>\<close> with 0 original and 6
  compressed tokens and raises nothing. So if the other tools of a batch compress, the
  batch returns; the entry of the tool at position \<open>i\<close> carries the sentinel, and the
  sums of the batch run over all results, the one at \<open>i\<close> included.
\<close>

theorem absent_schema_tolerated:
  assumes others: "\<forall>t \<in> set tools. inputSchema t \<noteq> None \<longrightarrow>
                     (\<exists>r. compressSchemaWithMetrics (inputSchema t) = Inr r)"
    and i: "i < length tools" "inputSchema (tools ! i) = None"
  shows "compressSchemaWithMetrics None =
           Inr \<lparr>originalTokens = 0, compressedTokens = 6,
                compressed = asc ''<schema></schema>'', reduction = 0\<rparr>
     \<and> (\<exists>b rs. compressToolSchemas tools = Inr b
          \<and> list_all2 (\<lambda>t r. compressSchemaWithMetrics (inputSchema t) = Inr r) tools rs
          \<and> compressedTools b ! i = (name (tools ! i), asc ''<schema></schema>'')
          \<and> originalTokens (rs ! i) = 0 \<and> compressedTokens (rs ! i) = 6
          \<and> originalTokens b = sum_list (map originalTokens rs)
          \<and> compressedTokens b = sum_list (map compressedTokens rs))"
proof
  show "compressSchemaWithMetrics None =
           Inr \<lparr>originalTokens = 0, compressedTokens = 6,
                compressed = asc ''<schema></schema>'', reduction = 0\<rparr>"
    by (rule ev_absent)
next
  have each: "\<forall>t \<in> set tools. \<exists>r. compressSchemaWithMetrics (inputSchema t) = Inr r"
  proof
    fix t assume t: "t \<in> set tools"
    show "\<exists>r. compressSchemaWithMetrics (inputSchema t) = Inr r"
    proof (cases "inputSchema t = None")
      case True
      then show ?thesis using ev_absent by simp
    next
      case False
      then show ?thesis using others t by blast
    qed
  qed
  have "\<exists>rs. list_all2 (\<lambda>t r. compressSchemaWithMetrics (inputSchema t) = Inr r) tools rs"
    using each
  proof (induction tools)
    case Nil
    show ?case by simp
  next
    case (Cons t tools)
    then obtain r rs where "compressSchemaWithMetrics (inputSchema t) = Inr r"
      "list_all2 (\<lambda>t r. compressSchemaWithMetrics (inputSchema t) = Inr r) tools rs" by auto
    then show ?case by (intro exI [of _ "r # rs"]) simp
  qed
  then obtain rs where rs: "list_all2 (\<lambda>t r. compressSchemaWithMetrics (inputSchema t) = Inr r) tools rs"
    by blast
  have len: "length rs = length tools" using rs by (simp add: list_all2_lengthD)
  have ri: "compressSchemaWithMetrics (inputSchema (tools ! i)) = Inr (rs ! i)"
    using list_all2_nthD [OF rs i(1)] .
  then have ri': "rs ! i = \<lparr>originalTokens = 0, compressedTokens = 6,
                compressed = asc ''<schema></schema>'', reduction = 0\<rparr>"
    using i(2) ev_absent by simp
  have nth: "map2 (\<lambda>t r. (name t, compressed r)) tools rs ! i = (name (tools ! i), compressed (rs ! i))"
    using i(1) len by simp
  obtain b where b: "compressToolSchemas tools = Inr b"
    and bo: "originalTokens b = sum_list (map originalTokens rs)"
    and bc: "compressedTokens b = sum_list (map compressedTokens rs)"
    and bt: "compressedTools b = map2 (\<lambda>t r. (name t, compressed r)) tools rs"
    using compressToolSchemas_all2 [OF rs] by simp
  have "compressedTools b ! i = (name (tools ! i), asc ''<schema></schema>'')"
    using bt nth ri' by simp
  moreover have "originalTokens (rs ! i) = 0" "compressedTokens (rs ! i) = 6"
    using ri' by simp_all
  ultimately show "\<exists>b rs. compressToolSchemas tools = Inr b
          \<and> list_all2 (\<lambda>t r. compressSchemaWithMetrics (inputSchema t) = Inr r) tools rs
          \<and> compressedTools b ! i = (name (tools ! i), asc ''<schema></schema>'')
          \<and> originalTokens (rs ! i) = 0 \<and> compressedTokens (rs ! i) = 6
          \<and> originalTokens b = sum_list (map originalTokens rs)
          \<and> compressedTokens b = sum_list (map compressedTokens rs)"
    using b bo bc rs by blast
qed

theorem absent_schema_tolerated_witness:
  "\<exists>b. compressToolSchemas
      [\<lparr>name = asc ''ping'', inputSchema = None\<rparr>,
       \<lparr>name = asc ''search'', inputSchema = Some (JObj [(asc ''type'', JStr (asc ''object'')),
          (asc ''properties'', JObj [(asc ''query'', JObj [(asc ''type'', JStr (asc ''string''))])]),
          (asc ''required'', JArr [JStr (asc ''query'')])])\<rparr>] = Inr b
     \<and> compressedTools b ! 0 = (asc ''ping'', asc ''<schema></schema>'')
     \<and> originalTokens b = 0 + 29 \<and> compressedTokens b = 6 + 2"
proof -
  let ?tools = "[\<lparr>name = asc ''ping'', inputSchema = None\<rparr>,
       \<lparr>name = asc ''search'', inputSchema = Some (JObj [(asc ''type'', JStr (asc ''object'')),
          (asc ''properties'', JObj [(asc ''query'', JObj [(asc ''type'', JStr (asc ''string''))])]),
          (asc ''required'', JArr [JStr (asc ''query'')])])\<rparr>]"
  have o: "\<forall>t \<in> set ?tools. inputSchema t \<noteq> None \<longrightarrow>
             (\<exists>r. compressSchemaWithMetrics (inputSchema t) = Inr r)"
    using ev_search by simp
  from absent_schema_tolerated [OF o, of 0] obtain b rs where
    b: "compressToolSchemas ?tools = Inr b"
    and rs: "list_all2 (\<lambda>t r. compressSchemaWithMetrics (inputSchema t) = Inr r) ?tools rs"
    and c: "compressedTools b ! 0 = (asc ''ping'', asc ''<schema></schema>'')"
    and s: "originalTokens b = sum_list (map originalTokens rs)"
           "compressedTokens b = sum_list (map compressedTokens rs)"
    by auto
  from rs obtain r0 r1 where rr: "rs = [r0, r1]"
    "compressSchemaWithMetrics None = Inr r0"
    "compressSchemaWithMetrics (Some (JObj [(asc ''type'', JStr (asc ''object'')),
          (asc ''properties'', JObj [(asc ''query'', JObj [(asc ''type'', JStr (asc ''string''))])]),
          (asc ''required'', JArr [JStr (asc ''query'')])])) = Inr r1"
    by (auto simp: list_all2_Cons1)
  have "originalTokens b = 0 + 29 \<and> compressedTokens b = 6 + 2"
    using s rr ev_absent ev_search by auto
  then show ?thesis using b c by blast
qed

section \<open>The first revision, src/unnamed/part_003\<close>

text \<open>
  \<^verbatim>\<open>src/unnamed/part_003\<close> is the oldest revision of the file: keys and enum values are
  not escaped, arrays show the \<^verbatim>\<open>type\<close> of their items only, \<^verbatim>\<open>estimateTokens\<close> is
  \<^verbatim>\<open>Math.ceil(text.length / 4)\<close> with no guard, and the reduction is not clamped. It is
  embedded to compare its metrics with those of \<^verbatim>\<open>part_004\<close>.
\<close>

definition basicType_003 :: "json \<Rightarrow> error + jsstring" where
  "basicType_003 prop =
     (let type = field prop (asc ''type''); format = field prop (asc ''format'') in
      if type = Some (JStr (asc ''string'')) then
        Inr (if format = Some (JStr (asc ''date'')) then asc ''date''
             else if format = Some (JStr (asc ''date-time'')) then asc ''datetime''
             else if format = Some (JStr (asc ''email'')) then asc ''email''
             else if format = Some (JStr (asc ''uri'')) then asc ''url''
             else asc ''string'')
      else if type = Some (JStr (asc ''number'')) \<or> type = Some (JStr (asc ''integer''))
        then Inr (asc ''number'')
      else if type = Some (JStr (asc ''boolean'')) then Inr (asc ''boolean'')
      else if truthy type then ToString (the type)
      else Inr (asc ''any''))"

text \<open>\<^verbatim>\<open>v?.name\<close>: \<^verbatim>\<open>undefined\<close> when \<open>v\<close> is \<^verbatim>\<open>undefined\<close> or \<^verbatim>\<open>null\<close>.\<close>

definition optField :: "json option \<Rightarrow> jsstring \<Rightarrow> json option" where
  "optField v k = (case v of None \<Rightarrow> None | Some JNull \<Rightarrow> None | Some x \<Rightarrow> field x k)"

text \<open>
  \<^verbatim>\<open>getCompactType\<close> (lines 27 to 75), without recursion in this revision.
  \<^verbatim>\<open>prop.enum.join("|")\<close> prints a \<^verbatim>\<open>null\<close> element as the empty string.
\<close>

definition getCompactType_003 :: "json \<Rightarrow> error + jsstring" where
  "getCompactType_003 prop =
    (if \<not> isObject prop then Inr (asc ''any'')
     else if field prop (asc ''type'') = Some (JStr (asc ''array'')) then
       (if truthy (optField (field prop (asc ''items'')) (asc ''type'')) then
          bindE (ToStringU (optField (field prop (asc ''items'')) (asc ''type'')))
            (\<lambda>t. Inr (asc ''array['' @ t @ asc '']''))
        else if truthy (optField (field prop (asc ''items'')) (asc ''enum'')) then
          Inr (asc ''array[enum]'')
        else Inr (asc ''array[any]''))
     else if asArray (field prop (asc ''enum'')) \<noteq> None then
       (if length (the (asArray (field prop (asc ''enum'')))) \<le> 3 then
          bindE (mapM (\<lambda>x. if x = JNull then Inr [] else ToString x)
                   (the (asArray (field prop (asc ''enum'')))))
            (\<lambda>ss. Inr (asc ''enum('' @ join (asc ''|'') ss @ asc '')''))
        else Inr (asc ''enum''))
     else if field prop (asc ''type'') = Some (JStr (asc ''object'')) then Inr (asc ''object'')
     else if truthy (field prop (asc ''oneOf'')) \<or> truthy (field prop (asc ''anyOf'')) then
       unionTypes (if truthy (field prop (asc ''oneOf'')) then the (field prop (asc ''oneOf''))
                   else the (field prop (asc ''anyOf'')))
     else basicType_003 prop)"

definition param_003 :: "json option \<Rightarrow> jsstring \<times> json \<Rightarrow> error + jsstring" where
  "param_003 required kp =
     (case kp of (key, prop) \<Rightarrow>
        bindE (requiredIncludes required key) (\<lambda>isRequired.
        bindE (getCompactType_003 prop) (\<lambda>type.
        Inr (key @ (if isRequired then asc ''*'' else asc ''?'') @ asc '':'' @ type))))"

definition jsonSchemaToXml_003 :: "json option \<Rightarrow> error + jsstring" where
  "jsonSchemaToXml_003 s =
     (if \<not> truthy s \<or> \<not> isObject (the s) then Inr (asc ''<schema></schema>'')
      else let schema = the s in
        if \<not> truthy (field schema (asc ''properties''))
           \<or> length (entries (the (field schema (asc ''properties'')))) = 0
          then Inr (asc ''<schema></schema>'')
        else bindE (mapM (param_003 (field schema (asc ''required'')))
                      (entries (the (field schema (asc ''properties''))))) (\<lambda>params.
               Inr (asc ''<schema>'' @ join (asc '', '') params @ asc ''</schema>'')))"

text \<open>\<^verbatim>\<open>estimateTokens\<close> (lines 77 to 79): \<^verbatim>\<open>text.length\<close> throws on \<^verbatim>\<open>undefined\<close>.\<close>

definition estimateTokens_003 :: "jsstring option \<Rightarrow> error + int" where
  "estimateTokens_003 t =
     (case t of
        None \<Rightarrow> Inl TypeError
      | Some text \<Rightarrow> Inr (Math_ceil (toDouble (of_nat (length text) / 4))))"

definition compressSchemaWithMetrics_003 :: "json option \<Rightarrow> error + SchemaCompressionResult" where
  "compressSchemaWithMetrics_003 schema =
     bindE (JSON_stringify schema) (\<lambda>originalJson.
     bindE (jsonSchemaToXml_003 schema) (\<lambda>compressedS.
     bindE (estimateTokens_003 originalJson) (\<lambda>original.
     bindE (estimateTokens_003 (Some compressedS)) (\<lambda>compressedT.
     let r = (if original > 0 then reductionPercent original compressedT else 0)
     in Inr \<lparr>originalTokens = original, compressedTokens = compressedT,
              compressed = compressedS, reduction = Math_round r\<rparr>))))"

fun toolsLoop_003 :: "int \<Rightarrow> int \<Rightarrow> ToolDescriptor list
    \<Rightarrow> error + (int \<times> int \<times> (jsstring \<times> jsstring) list)" where
  "toolsLoop_003 totalOriginalTokens totalCompressedTokens [] =
     Inr (totalOriginalTokens, totalCompressedTokens, [])"
| "toolsLoop_003 totalOriginalTokens totalCompressedTokens (tool # rest) =
     bindE (compressSchemaWithMetrics_003 (inputSchema tool)) (\<lambda>result.
     bindE (toolsLoop_003 (totalOriginalTokens + originalTokens result)
                      (totalCompressedTokens + compressedTokens result) rest) (\<lambda>(o', c', ts).
     Inr (o', c', (name tool, compressed result) # ts)))"

definition compressToolSchemas_003 :: "ToolDescriptor list \<Rightarrow> error + BatchResult" where
  "compressToolSchemas_003 tools =
     bindE (toolsLoop_003 0 0 tools) (\<lambda>(totalOriginalTokens, totalCompressedTokens, cts).
     Inr \<lparr>originalTokens = totalOriginalTokens, compressedTokens = totalCompressedTokens,
          compressedTools = cts,
          totalReduction =
            (if totalOriginalTokens > 0
             then Math_round (reductionPercent totalOriginalTokens totalCompressedTokens)
             else 0)\<rparr>)"

lemmas metrics_eval_003 = dbl asc_def getCompactType_003_def basicType_003_def optField_def
  unionTypes_def param_003_def jsonSchemaToXml_003_def requiredIncludes_def
  digits.simps showInt_def hexDigit_def unicodeEscape_def QuoteJSONString_def
  estimateTokens_003_def reductionPercent_def compressSchemaWithMetrics_003_def
  compressToolSchemas_003_def

text \<open>
  In this revision the empty object schema \<^verbatim>\<open>{}\<close> has 1 original token and 5 compressed
  tokens, and its reduction is \<open>- 400\<close>.
\<close>

theorem unclamped_reduction_003:
  "compressSchemaWithMetrics_003 (Some (JObj [])) =
     Inr \<lparr>originalTokens = 1, compressedTokens = 5,
          compressed = asc ''<schema></schema>'', reduction = - 400\<rparr>"
  by (simp add: metrics_eval_003 cong: let_weak_cong bindE_weak_cong)

text \<open>
  In this revision an absent schema raises: \<^verbatim>\<open>JSON.stringify(undefined)\<close> is
  \<^verbatim>\<open>undefined\<close>, whose \<^verbatim>\<open>length\<close> \<^verbatim>\<open>estimateTokens\<close> reads. A batch with such a tool
  raises too.
\<close>

theorem absent_schema_raises_003:
  "compressSchemaWithMetrics_003 None = Inl TypeError
   \<and> compressToolSchemas_003 [\<lparr>name = asc ''ping'', inputSchema = None\<rparr>] = Inl TypeError"
  by (simp add: metrics_eval_003 cong: let_weak_cong bindE_weak_cong)

text \<open>The search schema of the examples above, in this revision.\<close>

lemma search_003:
  "compressSchemaWithMetrics_003 (Some (JObj [(asc ''type'', JStr (asc ''object'')),
          (asc ''properties'', JObj [(asc ''query'', JObj [(asc ''type'', JStr (asc ''string''))])]),
          (asc ''required'', JArr [JStr (asc ''query'')])])) =
     Inr \<lparr>originalTokens = 31, compressedTokens = 8,
          compressed = asc ''<schema>query*:string</schema>'', reduction = 74\<rparr>"
  by (simp add: metrics_eval_003 cong: let_weak_cong bindE_weak_cong)

end
